theory Spec2Isabelle
  imports Complex_Main "HOL-Library.Multiset"
begin

section \<open>The benchmark controller (main.js) as a state machine\<close>

text \<open>
  The controller is the master process of the benchmark: it reads \<open>config.json\<close> into
  \<open>argv\<close>, computes its globals, forks \<open>argv.processes\<close> workers and then reacts to events
  (a worker coming online, a worker's message, a worker's exit, the one-second timer, the
  duration timer). Each handler of the source is a function from the globals to the new
  globals and the list of effects it performs on its collaborators (messages sent to workers,
  calls of the stats module, of the alerts module, of the logger, process exit). An uncaught
  \<open>TypeError\<close> is a value of the result type.
\<close>

subsection \<open>JavaScript numbers\<close>

text \<open>
  The operation mix (\<open>FOPS\<close>, \<open>ROPS\<close>, \<open>WOPS\<close>) and the cells of the counters tables are
  modelled in IEEE 754 binary64 arithmetic: a number is a finite rational, an infinity or
  NaN, and each operation rounds its exact result to the nearest double, ties to even. The
  sign of zero is not tracked. The globals that the controller only steps by one from zero
  (\<open>counter\<close>, \<open>online\<close>, \<open>exited\<close>, the role counters, \<open>worker.iteration\<close>) are integers.
\<close>

datatype number = Fin rat | PosInf | NegInf | NotANumber

text \<open>\<open>bits n\<close> is the length of the binary numeral of a positive integer.\<close>

function bits :: "int \<Rightarrow> int" where
  "bits n = (if n \<le> 0 then 0 else 1 + bits (n div 2))"
  by pat_completeness auto
termination
  by (relation "measure nat") auto

declare bits.simps [simp del]

definition pow2 :: "int \<Rightarrow> rat" where
  "pow2 e = (if 0 \<le> e then 2 ^ nat e else 1 / 2 ^ nat (- e))"

text \<open>\<open>ilog2 a\<close> is the integer part of the binary logarithm of a positive rational.\<close>

definition ilog2 :: "rat \<Rightarrow> int" where
  "ilog2 a =
     (let (p, q) = quotient_of a;
          d = bits p - bits q
      in if pow2 d \<le> a then d else d - 1)"

definition round_half_even :: "rat \<Rightarrow> int" where
  "round_half_even m =
     (let f = \<lfloor>m\<rfloor>; d = m - of_int f
      in if d < 1 / 2 then f
         else if 1 / 2 < d then f + 1
         else if even f then f else f + 1)"

text \<open>
  Rounding to binary64: 53 significant bits, the least exponent of a unit in the last
  place is \<open>-1074\<close> (subnormals), and a result of magnitude \<open>2 ^ 1024\<close> or more (one whose
  integer part has more than 1024 binary digits) overflows.
\<close>

definition fl :: "rat \<Rightarrow> number" where
  "fl x =
     (if x = 0 then Fin 0
      else
        let a = \<bar>x\<bar>;
            e = max (ilog2 a - 52) (- 1074);
            y = of_int (round_half_even (a / pow2 e)) * pow2 e
        in if 1024 < bits \<lfloor>y\<rfloor> then (if 0 < x then PosInf else NegInf)
           else Fin (if 0 < x then y else - y))"

fun js_neg :: "number \<Rightarrow> number" where
  "js_neg (Fin a) = Fin (- a)"
| "js_neg PosInf = NegInf"
| "js_neg NegInf = PosInf"
| "js_neg NotANumber = NotANumber"

fun js_add :: "number \<Rightarrow> number \<Rightarrow> number" where
  "js_add NotANumber _ = NotANumber"
| "js_add _ NotANumber = NotANumber"
| "js_add (Fin a) (Fin b) = fl (a + b)"
| "js_add PosInf NegInf = NotANumber"
| "js_add NegInf PosInf = NotANumber"
| "js_add PosInf _ = PosInf"
| "js_add NegInf _ = NegInf"
| "js_add (Fin a) b = b"

definition js_sub :: "number \<Rightarrow> number \<Rightarrow> number" where
  "js_sub a b = js_add a (js_neg b)"

fun js_sign :: "number \<Rightarrow> int" where
  "js_sign (Fin a) = sgn \<lfloor>sgn a\<rfloor>"
| "js_sign PosInf = 1"
| "js_sign NegInf = - 1"
| "js_sign NotANumber = 0"

definition signed_inf :: "int \<Rightarrow> number" where
  "signed_inf s = (if 0 < s then PosInf else NegInf)"

fun js_mul :: "number \<Rightarrow> number \<Rightarrow> number" where
  "js_mul NotANumber _ = NotANumber"
| "js_mul _ NotANumber = NotANumber"
| "js_mul (Fin a) (Fin b) = fl (a * b)"
| "js_mul a b =
     (if js_sign a = 0 \<or> js_sign b = 0 then NotANumber
      else signed_inf (js_sign a * js_sign b))"

fun js_div :: "number \<Rightarrow> number \<Rightarrow> number" where
  "js_div NotANumber _ = NotANumber"
| "js_div _ NotANumber = NotANumber"
| "js_div (Fin a) (Fin b) =
     (if b = 0 then (if a = 0 then NotANumber else signed_inf \<lfloor>sgn a\<rfloor>)
      else fl (a / b))"
| "js_div (Fin a) _ = Fin 0"
| "js_div a (Fin b) = signed_inf (js_sign a * (if b < 0 then - 1 else 1))"
| "js_div _ _ = NotANumber"

fun js_less :: "number \<Rightarrow> number \<Rightarrow> bool" where
  "js_less NotANumber _ = False"
| "js_less _ NotANumber = False"
| "js_less (Fin a) (Fin b) = (a < b)"
| "js_less NegInf NegInf = False"
| "js_less NegInf _ = True"
| "js_less _ NegInf = False"
| "js_less PosInf _ = False"
| "js_less (Fin a) PosInf = True"

subsection \<open>Configuration, messages and effects\<close>

text \<open>
  Values that the controller only passes on (bin names, filter bounds, the bin and scan
  specifications) are kept as opaque JavaScript values; \<open>JUndefined\<close> is a missing key.
  The keys \<open>bin\<close>, \<open>min\<close>, \<open>max\<close> and \<open>value\<close> of a query specification are the fields
  \<open>qbin\<close>, \<open>qmin\<close>, \<open>qmax\<close> and \<open>qvalue\<close>; the key \<open>set\<close> of \<open>argv\<close> is \<open>set_name\<close>; the
  keys of the two job objects carry the prefixes \<open>ro_\<close> and \<open>qo_\<close>.
\<close>

datatype jsval = JUndefined | JInt int | JStr string

record queryConfig =
  qtype :: jsval
  qbin :: jsval
  qmin :: jsval
  qmax :: jsval
  qvalue :: jsval

text \<open>
  \<open>config.json\<close> as \<open>require\<close> returns it. \<open>time\<close> is the duration as
  \<open>stats.parse_time_to_secs\<close> converts it (the stats module is a collaborator); \<open>None\<close> is
  \<open>undefined\<close> throughout. The numbers \<open>operations\<close>, \<open>reads\<close> and \<open>writes\<close> are the
  decimal literals of the file, which JSON parsing rounds to doubles.
\<close>

record argv =
  processes :: int
  operations :: rat
  reads :: rat
  writes :: rat
  time :: "int option"
  iterations :: "int option"
  querySpec :: "queryConfig list option"
  scanSpec :: "jsval list option"
  keyRange :: "(int \<times> int) option"
  namespace :: jsval
  set_name :: jsval
  binSpec :: jsval
  silent :: bool
  summary :: bool

datatype error = TypeError

text \<open>What \<open>aerospike.filter.range\<close> and \<open>aerospike.filter.equal\<close> build.\<close>

datatype filter = Filter_range jsval jsval jsval | Filter_equal jsval jsval

text \<open>
  The \<open>statement\<close> of a \<open>query\<close> job: the object \<open>stmt\<close> of \<open>queryWorkerJob\<close>, whose
  \<open>filters\<close> key may be missing, or \<open>argv.scanSpec\<close> as \<open>scanWorkerJob\<close> passes it.
\<close>

datatype statement = Stmt "filter list option" | Scan_statement "jsval list option"

record run_option =
  ro_namespace :: jsval
  ro_set :: jsval
  ro_keyRange :: "(int \<times> int) option"
  rops :: number
  wops :: number
  ro_binSpec :: jsval

record query_options =
  qo_namespace :: jsval
  qo_set :: jsval
  qo_statement :: statement

text \<open>Messages of the controller to a worker: \<open>['run', option]\<close>, \<open>['query', options]\<close>,
  \<open>['trans']\<close> and \<open>['end']\<close>.\<close>

datatype wmsg = Run run_option | Query query_options | Trans | End

text \<open>
  A cell of a counters table is a JavaScript number, that is a double: the controller adds
  the cells of a report to its own with \<open>+\<close>, which rounds.
\<close>

type_synonym row = "number list"
type_synonym table = "row list"

text \<open>
  The payload \<open>message[1]\<close> of a worker's message: missing, an array of arrays of numbers
  (the interval counters), or an object read through its keys \<open>alert\<close> and \<open>severity\<close>.
  The completion counters of a \<open>stats\<close> message are handed to the stats module unread, so
  they may be any payload.
\<close>

datatype payload = Undefined | Counters table | Alert_info jsval jsval

type_synonym message = "string \<times> payload"

datatype logline =
    Log_config
  | Log_read_write row row
  | Log_query row
  | Log_scan row
  | Log_worker_exited nat "int option"
  | Log_not_master

datatype effect =
    Send nat wmsg
  | Fork nat
  | Stats_start
  | Stats_stop
  | Stats_report_final
  | Stats_interval row row row row
  | Stats_iteration payload
  | Handle_alert jsval jsval
  | Setup_alert_system
  | Set_interval int
  | Set_timeout int
  | Log logline
  | Process_exit int

subsection \<open>The globals of the controller\<close>

text \<open>
  \<open>iteration\<close> is the property \<open>worker.iteration\<close> of each worker object, \<open>workers\<close> the keys
  of \<open>cluster.workers\<close> (the live workers, in the order of their ids), \<open>next_id\<close> the id the
  next \<open>cluster.fork\<close> gives, \<open>exit_code\<close> the status the process has ended with.
\<close>

record master =
  queryWorkers :: int
  scanWorkers :: int
  rwWorkers :: int
  ROPS :: number
  WOPS :: number
  online :: int
  exited :: int
  rwOnline :: int
  queryOnline :: int
  scanOnline :: int
  interval_stats :: table
  counter :: int
  iteration :: "nat \<Rightarrow> int"
  workers :: "nat list"
  next_id :: nat
  exit_code :: "int option"

definition OP_TYPES :: nat where
  "OP_TYPES = 4"

definition STATS :: nat where
  "STATS = 3"

definition reset_interval_stats :: "master \<Rightarrow> master" where
  "reset_interval_stats st =
     st\<lparr>interval_stats :=
          [[Fin 0, Fin 0, Fin 0], [Fin 0, Fin 0, Fin 0],
           [Fin 0, Fin 0, Fin 0], [Fin 0, Fin 0, Fin 0]]\<rparr>"

subsection \<open>The operation mix\<close>

text \<open>Lines 64 to 73: \<open>FOPS\<close>, \<open>ROPS\<close>, \<open>WOPS\<close> and the shortfall \<open>DOPS\<close>.\<close>

definition FOPS :: "argv \<Rightarrow> number" where
  "FOPS a = js_div (fl (operations a)) (js_add (fl (reads a)) (fl (writes a)))"

definition ROPS0 :: "argv \<Rightarrow> number" where
  "ROPS0 a = js_mul (FOPS a) (fl (reads a))"

definition WOPS0 :: "argv \<Rightarrow> number" where
  "WOPS0 a = js_mul (FOPS a) (fl (writes a))"

definition DOPS :: "argv \<Rightarrow> number" where
  "DOPS a = js_sub (fl (operations a)) (js_add (ROPS0 a) (WOPS0 a))"

definition operation_mix :: "argv \<Rightarrow> number \<times> number" where
  "operation_mix a =
     (if js_less (js_add (ROPS0 a) (WOPS0 a)) (fl (operations a))
      then (js_add (ROPS0 a) (DOPS a), WOPS0 a)
      else (ROPS0 a, WOPS0 a))"

text \<open>
  Lines 75 to 78: with a duration, the iteration limit is dropped. The handlers below read
  \<open>argv\<close> after this assignment.
\<close>

definition setup_time :: "argv \<Rightarrow> argv" where
  "setup_time a = (if time a \<noteq> None then a\<lparr>iterations := None\<rparr> else a)"

subsection \<open>Jobs\<close>

definition rwWorkerJob :: "argv \<Rightarrow> master \<Rightarrow> nat \<Rightarrow> master \<times> effect list" where
  "rwWorkerJob a st worker =
     (let option = \<lparr>ro_namespace = namespace a, ro_set = set_name a,
                     ro_keyRange = keyRange a, rops = ROPS st, wops = WOPS st,
                     ro_binSpec = binSpec a\<rparr>
      in (st\<lparr>iteration := (iteration st)(worker := iteration st worker + 1)\<rparr>,
          [Send worker (Run option)]))"

text \<open>
  \<open>argv.querySpec[id]\<close> is \<open>undefined\<close> out of range, and reading \<open>qtype\<close> of it (or indexing
  a missing \<open>querySpec\<close>) raises.
\<close>

definition queryWorkerJob :: "argv \<Rightarrow> nat \<Rightarrow> int \<Rightarrow> error + effect list" where
  "queryWorkerJob a worker ident =
     (case querySpec a of
        None \<Rightarrow> Inl TypeError
      | Some qs \<Rightarrow>
          if 0 \<le> ident \<and> nat ident < length qs then
            let queryConfig = qs ! nat ident;
                stmt =
                  (if qtype queryConfig = JStr ''Range''
                   then Some [Filter_range (qbin queryConfig) (qmin queryConfig)
                                (qmax queryConfig)]
                   else if qtype queryConfig = JStr ''Equal''
                   then Some [Filter_equal (qbin queryConfig) (qvalue queryConfig)]
                   else None);
                options = \<lparr>qo_namespace = namespace a, qo_set = set_name a,
                            qo_statement = Stmt stmt\<rparr>
            in Inr [Send worker (Query options)]
          else Inl TypeError)"

definition scanWorkerJob :: "argv \<Rightarrow> nat \<Rightarrow> effect list" where
  "scanWorkerJob a worker =
     (let options = \<lparr>qo_namespace = namespace a, qo_set = set_name a,
                      qo_statement = Scan_statement (scanSpec a)\<rparr>
      in [Send worker (Query options)])"

definition worker_exit :: "nat \<Rightarrow> effect list" where
  "worker_exit worker = [Send worker End]"

definition worker_shutdown :: "master \<Rightarrow> effect list" where
  "worker_shutdown st = concat (map worker_exit (workers st))"

definition worker_probe :: "master \<Rightarrow> effect list" where
  "worker_probe st = map (\<lambda>ident. Send ident Trans) (workers st)"

subsection \<open>Interval counters\<close>

text \<open>
  \<open>t[i][j]\<close> as an operand of \<open>+\<close>: a missing row raises, a missing cell is \<open>undefined\<close>,
  which \<open>+\<close> turns into NaN.
\<close>

definition read_cell :: "table \<Rightarrow> nat \<Rightarrow> nat \<Rightarrow> error + number" where
  "read_cell t i j =
     (if i < length t then Inr (if j < length (t ! i) then t ! i ! j else NotANumber)
      else Inl TypeError)"

text \<open>
  \<open>interval_stats[i][j] + interval_worker_stats[i][j]\<close> at line 183 is the addition of
  doubles, \<open>js_add\<close>.
\<close>

text \<open>
  \<open>t[i][j] = v\<close> on an existing row: an assignment past the end of a JavaScript array
  extends it. The loop below writes the cells of a row from the first on, so it extends a row
  by one cell at most.
\<close>

definition write_cell :: "table \<Rightarrow> nat \<Rightarrow> nat \<Rightarrow> number \<Rightarrow> table" where
  "write_cell t i j v =
     (let r = t ! i
      in t[i := (if j < length r then r[j := v]
                 else r @ replicate (j - length r) NotANumber @ [v])])"

definition add_cell :: "table \<Rightarrow> table \<Rightarrow> nat \<Rightarrow> nat \<Rightarrow> error + table" where
  "add_cell stats worker_stats i j =
     (case read_cell stats i j of
        Inl e \<Rightarrow> Inl e
      | Inr x \<Rightarrow>
          (case read_cell worker_stats i j of
             Inl e \<Rightarrow> Inl e
           | Inr y \<Rightarrow> Inr (write_cell stats i j (js_add x y))))"

function inner_loop :: "table \<Rightarrow> table \<Rightarrow> nat \<Rightarrow> nat \<Rightarrow> error + table" where
  "inner_loop stats worker_stats i j =
     (if j < STATS then
        (case add_cell stats worker_stats i j of
           Inl e \<Rightarrow> Inl e
         | Inr stats' \<Rightarrow> inner_loop stats' worker_stats i (j + 1))
      else Inr stats)"
  by pat_completeness auto
termination
  by (relation "measure (\<lambda>(stats, worker_stats, i, j). STATS - j)") auto

declare inner_loop.simps [simp del]

function outer_loop :: "table \<Rightarrow> table \<Rightarrow> nat \<Rightarrow> error + table" where
  "outer_loop stats worker_stats i =
     (if i < OP_TYPES then
        (case inner_loop stats worker_stats i 0 of
           Inl e \<Rightarrow> Inl e
         | Inr stats' \<Rightarrow> outer_loop stats' worker_stats (i + 1))
      else Inr stats)"
  by pat_completeness auto
termination
  by (relation "measure (\<lambda>(stats, worker_stats, i). OP_TYPES - i)") auto

declare outer_loop.simps [simp del]

text \<open>
  The JavaScript remainder of integers, an integer or NaN: NaN for a zero divisor, else the
  sign of the dividend.
\<close>

datatype jsnum = Num int | NaN

definition js_rem :: "int \<Rightarrow> int \<Rightarrow> jsnum" where
  "js_rem x y = (if y = 0 then NaN else Num (sgn x * (\<bar>x\<bar> mod \<bar>y\<bar>)))"

text \<open>
  A row of the global table as \<open>stats.interval\<close> and the logger get it. The table has its
  four rows wherever a row is taken: \<open>reset_interval_stats\<close> builds them and the loops have
  just read every one of them.
\<close>

definition row_at :: "table \<Rightarrow> nat \<Rightarrow> row" where
  "row_at t i = (if i < length t then t ! i else [])"

definition print_interval_stats :: "master \<Rightarrow> effect list" where
  "print_interval_stats st =
     (if 0 < rwWorkers st
      then [Log (Log_read_write (row_at (interval_stats st) 0) (row_at (interval_stats st) 1))]
      else []) @
     (if queryWorkers st \<noteq> 0 then [Log (Log_query (row_at (interval_stats st) 2))] else []) @
     (if scanWorkers st \<noteq> 0 then [Log (Log_scan (row_at (interval_stats st) 3))] else [])"

definition flush :: "argv \<Rightarrow> master \<Rightarrow> effect list" where
  "flush a st =
     Stats_interval (row_at (interval_stats st) 0) (row_at (interval_stats st) 1)
       (row_at (interval_stats st) 2) (row_at (interval_stats st) 3) #
     (if \<not> silent a then print_interval_stats st else [])"

definition worker_results_interval ::
  "argv \<Rightarrow> master \<Rightarrow> nat \<Rightarrow> payload \<Rightarrow> error + master \<times> effect list" where
  "worker_results_interval a st worker interval_worker_stats =
     (case interval_worker_stats of
        Counters t \<Rightarrow>
          (case outer_loop (interval_stats st) t 0 of
             Inl e \<Rightarrow> Inl e
           | Inr stats' \<Rightarrow>
               let st' = st\<lparr>interval_stats := stats', counter := counter st + 1\<rparr>
               in if js_rem (counter st') (processes a) = Num 0
                  then Inr (st', flush a st')
                  else Inr (st', []))
      | _ \<Rightarrow> Inl TypeError)"

subsection \<open>Completion reports and the dispatcher\<close>

definition worker_results_iteration ::
  "argv \<Rightarrow> master \<Rightarrow> nat \<Rightarrow> payload \<Rightarrow> master \<times> effect list" where
  "worker_results_iteration a st worker op_stats =
     (if iterations a = None
         \<or> (case iterations a of None \<Rightarrow> False | Some n \<Rightarrow> iteration st worker < n)
         \<or> time a \<noteq> None
      then (case rwWorkerJob a st worker of
              (st', sent) \<Rightarrow> (st', Stats_iteration op_stats # sent))
      else (st, Stats_iteration op_stats # worker_exit worker))"

text \<open>
  Of an array, the keys \<open>alert\<close> and \<open>severity\<close> are \<open>undefined\<close>; reading a key of a
  missing payload raises.
\<close>

definition worker_results ::
  "argv \<Rightarrow> master \<Rightarrow> nat \<Rightarrow> message \<Rightarrow> error + master \<times> effect list" where
  "worker_results a st worker message =
     (if fst message = ''stats'' then Inr (worker_results_iteration a st worker (snd message))
      else if fst message = ''alert'' then
        (case snd message of
           Alert_info al sev \<Rightarrow> Inr (st, [Handle_alert al sev])
         | Counters t \<Rightarrow> Inr (st, [Handle_alert JUndefined JUndefined])
         | Undefined \<Rightarrow> Inl TypeError)
      else worker_results_interval a st worker (snd message))"

subsection \<open>Timers\<close>

text \<open>The one-second timer, and the duration timer (armed only with a duration).\<close>

definition tick :: "master \<Rightarrow> master \<times> effect list" where
  "tick st = (reset_interval_stats st, worker_probe (reset_interval_stats st))"

definition duration_elapsed :: "master \<Rightarrow> master \<times> effect list" where
  "duration_elapsed st =
     (reset_interval_stats st,
      worker_probe (reset_interval_stats st) @ worker_shutdown (reset_interval_stats st))"

subsection \<open>Cluster and process events\<close>

definition finalize :: "argv \<Rightarrow> master \<Rightarrow> effect list" where
  "finalize a st =
     Stats_stop # (if summary a \<and> 0 < rwWorkers st then [Stats_report_final] else [])"

text \<open>
  \<open>process.exit(code)\<close> once the listener of the process's \<open>exit\<close> event is registered:
  the listener runs, then the process ends.
\<close>

definition process_exit :: "argv \<Rightarrow> master \<Rightarrow> int \<Rightarrow> master \<times> effect list" where
  "process_exit a st code =
     (st\<lparr>exit_code := Some code\<rparr>,
      (if exited st = online st then finalize a st else []) @ [Process_exit code])"

definition cluster_online :: "argv \<Rightarrow> master \<Rightarrow> nat \<Rightarrow> error + master \<times> effect list" where
  "cluster_online a st0 worker =
     (let st = st0\<lparr>online := online st0 + 1\<rparr>
      in if rwOnline st < rwWorkers st then
           Inr (rwWorkerJob a (st\<lparr>rwOnline := rwOnline st + 1\<rparr>) worker)
         else if queryOnline st < queryWorkers st then
           (case queryWorkerJob a worker (queryOnline st) of
              Inl e \<Rightarrow> Inl e
            | Inr sent \<Rightarrow> Inr (st\<lparr>queryOnline := queryOnline st + 1\<rparr>, sent))
         else if scanOnline st < scanWorkers st then
           Inr (st\<lparr>scanOnline := scanOnline st + 1\<rparr>, scanWorkerJob a worker)
         else Inr (st, []))"

text \<open>
  The exit code of a worker is \<open>None\<close> (JavaScript's \<open>null\<close>) when a signal ended it.
  \<open>process.exit(1)\<close> does not return, so the comparison after it is not reached.
\<close>

definition cluster_exit :: "argv \<Rightarrow> master \<Rightarrow> nat \<Rightarrow> int option \<Rightarrow> master \<times> effect list" where
  "cluster_exit a st worker code =
     (if code \<noteq> Some 0 then
        (case process_exit a st 1 of
           (st', effs) \<Rightarrow> (st', Log (Log_worker_exited worker code) # effs))
      else
        let st' = st\<lparr>exited := exited st + 1\<rparr>
        in if exited st' = online st' then process_exit a st' 0 else (st', []))"

subsection \<open>Start of the controller\<close>

definition globals :: "argv \<Rightarrow> master" where
  "globals a =
     (let q = (case querySpec a of None \<Rightarrow> 0 | Some qs \<Rightarrow> int (length qs));
          s = (case scanSpec a of None \<Rightarrow> 0 | Some ss \<Rightarrow> int (length ss))
      in reset_interval_stats
           \<lparr>queryWorkers = q, scanWorkers = s, rwWorkers = processes a - q - s,
            ROPS = fst (operation_mix a), WOPS = snd (operation_mix a),
            online = 0, exited = 0, rwOnline = 0, queryOnline = 0, scanOnline = 0,
            interval_stats = [], counter = 0, iteration = (\<lambda>w. 0), workers = [],
            next_id = 1, exit_code = None\<rparr>)"

definition worker_spawn :: "master \<Rightarrow> master \<times> effect list" where
  "worker_spawn st =
     (let worker = next_id st
      in (st\<lparr>workers := workers st @ [worker],
              iteration := (iteration st)(worker := 0),
              next_id := worker + 1\<rparr>,
          [Fork worker]))"

function spawn_loop :: "argv \<Rightarrow> master \<Rightarrow> int \<Rightarrow> master \<times> effect list" where
  "spawn_loop a st p =
     (if p < processes a then
        (case worker_spawn st of
           (st1, forked) \<Rightarrow>
             (case spawn_loop a st1 (p + 1) of
                (st2, rest) \<Rightarrow> (st2, forked @ rest)))
      else (st, []))"
  by pat_completeness auto
termination
  by (relation "measure (\<lambda>(a, st, p). nat (processes a - p))") auto

declare spawn_loop.simps [simp del]

text \<open>
  The script from its first line to the end of the spawn loop. A child process leaves at
  line 61, before any listener is registered; a missing \<open>keyRange\<close> raises at line 239.
\<close>

definition startup :: "argv \<Rightarrow> bool \<Rightarrow> error + master \<times> effect list" where
  "startup a isMaster =
     (if \<not> isMaster then
        Inr ((globals a)\<lparr>exit_code := Some 0\<rparr>, [Log Log_not_master, Process_exit 0])
      else
        (case keyRange a of
           None \<Rightarrow> Inl TypeError
         | Some keyrange \<Rightarrow>
             (case spawn_loop a (globals a) 0 of
                (st, forked) \<Rightarrow>
                  Inr (st,
                       [Setup_alert_system] @
                       (if \<not> silent a then [Log Log_config] else []) @
                       [Set_interval 1000] @
                       (case time a of None \<Rightarrow> [] | Some t \<Rightarrow> [Set_timeout (t * 1000)]) @
                       [Stats_start] @ forked))))"

subsection \<open>Runs\<close>

datatype event =
    Online nat
  | Exited nat "int option"
  | Message nat message
  | Tick
  | Duration_elapsed

text \<open>
  One event of the event loop. The cluster module drops a worker from \<open>cluster.workers\<close>
  when it has exited. A process that has ended handles nothing more.
\<close>

fun step :: "argv \<Rightarrow> master \<Rightarrow> event \<Rightarrow> error + master \<times> effect list" where
  "step a st (Online worker) = cluster_online a st worker"
| "step a st (Exited worker code) =
     Inr (cluster_exit a (st\<lparr>workers := removeAll worker (workers st)\<rparr>) worker code)"
| "step a st (Message worker message) = worker_results a st worker message"
| "step a st Tick = Inr (tick st)"
| "step a st Duration_elapsed =
     (if time a = None then Inr (st, []) else Inr (duration_elapsed st))"

fun run :: "argv \<Rightarrow> master \<Rightarrow> event list \<Rightarrow> error + master \<times> effect list" where
  "run a st [] = Inr (st, [])"
| "run a st (ev # evs) =
     (if exit_code st \<noteq> None then Inr (st, [])
      else
        (case step a st ev of
           Inl e \<Rightarrow> Inl e
         | Inr (st1, effs) \<Rightarrow>
             (case run a st1 evs of
                Inl e \<Rightarrow> Inl e
              | Inr (st2, rest) \<Rightarrow> Inr (st2, effs @ rest))))"

definition controller :: "argv \<Rightarrow> bool \<Rightarrow> event list \<Rightarrow> error + master \<times> effect list" where
  "controller a isMaster evs =
     (case startup a isMaster of
        Inl e \<Rightarrow> Inl e
      | Inr (st, effs) \<Rightarrow>
          (case run (setup_time a) st evs of
             Inl e \<Rightarrow> Inl e
           | Inr (st', rest) \<Rightarrow> Inr (st', effs @ rest)))"

text \<open>The messages a list of effects sends to one worker, in order.\<close>

fun sent_to :: "nat \<Rightarrow> effect list \<Rightarrow> wmsg list" where
  "sent_to w [] = []"
| "sent_to w (Send w' m # effs) = (if w' = w then m # sent_to w effs else sent_to w effs)"
| "sent_to w (_ # effs) = sent_to w effs"

subsection \<open>Notions of the specification\<close>

text \<open>
  A counters table as the protocol defines it: \<open>OP_TYPES\<close> rows (read, write, query, scan)
  of \<open>STATS\<close> cells (operations, timeouts, errors).
\<close>

definition well_formed :: "table \<Rightarrow> bool" where
  "well_formed t = (length t = OP_TYPES \<and> list_all (\<lambda>r. length r = STATS) t)"

text \<open>
  The per-cell sum of two tables, in the arithmetic of the source, and of a table with a
  list of tables, added one after the other.
\<close>

definition add_tables :: "table \<Rightarrow> table \<Rightarrow> table" where
  "add_tables t u = map2 (map2 js_add) t u"

definition sum_tables :: "table \<Rightarrow> table list \<Rightarrow> table" where
  "sum_tables t us = fold (\<lambda>u acc. add_tables acc u) us t"

definition zero_table :: table where
  "zero_table = replicate OP_TYPES (replicate STATS (Fin 0))"

text \<open>
  Tables of counts: a worker's counters are numbers of operations, natural numbers. A table
  of counts has the shape of the protocol; \<open>count_table\<close> is the table of doubles a worker
  sends for it. The per-cell totals of tables of counts are exact in doubles as long as no
  cell exceeds \<open>2 ^ 53\<close>.
\<close>

definition count_shape :: "nat list list \<Rightarrow> bool" where
  "count_shape c = (length c = OP_TYPES \<and> list_all (\<lambda>r. length r = STATS) c)"

definition count_table :: "nat list list \<Rightarrow> table" where
  "count_table c = map (map (\<lambda>k. Fin (of_nat k))) c"

definition add_counts :: "nat list list \<Rightarrow> nat list list \<Rightarrow> nat list list" where
  "add_counts c d = map2 (map2 (+)) c d"

definition total_counts :: "nat list list \<Rightarrow> nat list list list \<Rightarrow> nat list list" where
  "total_counts c ds = fold (\<lambda>d acc. add_counts acc d) ds c"

definition exact_counts :: "nat list list \<Rightarrow> bool" where
  "exact_counts c = list_all (list_all (\<lambda>k. k \<le> 2 ^ 53)) c"

text \<open>The interval reports of a list of workers, received one after the other.\<close>

fun interval_reports ::
  "argv \<Rightarrow> master \<Rightarrow> (nat \<times> table) list \<Rightarrow> error + master \<times> effect list" where
  "interval_reports a st [] = Inr (st, [])"
| "interval_reports a st (r # rs) =
     (case worker_results_interval a st (fst r) (Counters (snd r)) of
        Inl e \<Rightarrow> Inl e
      | Inr (st1, effs) \<Rightarrow>
          (case interval_reports a st1 rs of
             Inl e \<Rightarrow> Inl e
           | Inr (st2, rest) \<Rightarrow> Inr (st2, effs @ rest)))"

text \<open>
  The roles of the specification, in its priority order: the role of the \<open>k\<close>-th worker
  to come online (counted from 0) with \<open>r\<close> read/write, \<open>q\<close> query and \<open>s\<close> scan slots.
\<close>

datatype role = ReadWrite | Query_role nat | Scan_role

definition spec_role :: "nat \<Rightarrow> nat \<Rightarrow> nat \<Rightarrow> nat \<Rightarrow> role option" where
  "spec_role r q s k =
     (if k < r then Some ReadWrite
      else if k < r + q then Some (Query_role (k - r))
      else if k < r + q + s then Some Scan_role
      else None)"

text \<open>The job that the job builders of the source send a worker of a role.\<close>

fun role_job :: "argv \<Rightarrow> master \<Rightarrow> nat \<Rightarrow> role option \<Rightarrow> effect list" where
  "role_job a st worker None = []"
| "role_job a st worker (Some ReadWrite) = snd (rwWorkerJob a st worker)"
| "role_job a st worker (Some (Query_role i)) =
     (case queryWorkerJob a worker (int i) of Inl e \<Rightarrow> [] | Inr sent \<Rightarrow> sent)"
| "role_job a st worker (Some Scan_role) = scanWorkerJob a worker"

fun is_query :: "wmsg \<Rightarrow> bool" where
  "is_query (Query options) = True"
| "is_query _ = False"

text \<open>
  The slots of the configuration: one query worker for each query specification, one scan
  worker for each scan specification, read/write workers for the rest of the processes.
\<close>

definition query_slots :: "argv \<Rightarrow> nat" where
  "query_slots a = (case querySpec a of None \<Rightarrow> 0 | Some qs \<Rightarrow> length qs)"

definition scan_slots :: "argv \<Rightarrow> nat" where
  "scan_slots a = (case scanSpec a of None \<Rightarrow> 0 | Some ss \<Rightarrow> length ss)"

definition rw_slots :: "argv \<Rightarrow> nat" where
  "rw_slots a = nat (processes a - int (query_slots a) - int (scan_slots a))"

text \<open>
  The globals after \<open>k\<close> workers have come online, as far as the handler of \<open>online\<close> reads
  them; \<open>st0\<close> are the globals at the start.
\<close>

definition online_inv :: "argv \<Rightarrow> master \<Rightarrow> nat \<Rightarrow> master \<Rightarrow> bool" where
  "online_inv a st0 k st =
     (exit_code st = None \<and> ROPS st = ROPS st0 \<and> WOPS st = WOPS st0 \<and>
      queryWorkers st = int (query_slots a) \<and> scanWorkers st = int (scan_slots a) \<and>
      rwWorkers st = processes a - int (query_slots a) - int (scan_slots a) \<and>
      rwOnline st = int (min k (rw_slots a)) \<and>
      queryOnline st = int (min (k - rw_slots a) (query_slots a)) \<and>
      scanOnline st = int (min (k - rw_slots a - query_slots a) (scan_slots a)))"

text \<open>
  What a run shows of the globals: the global counters table, the count of interval reports,
  the live workers and the exit status, with the effects performed.
\<close>

definition outcome ::
  "error + master \<times> effect list \<Rightarrow>
   error + (table \<times> int \<times> nat list \<times> int option) \<times> effect list" where
  "outcome res =
     (case res of
        Inl e \<Rightarrow> Inl e
      | Inr (st, effs) \<Rightarrow>
          Inr ((interval_stats st, counter st, workers st, exit_code st), effs))"

subsection \<open>Example configurations\<close>

definition range_query :: queryConfig where
  "range_query =
     \<lparr>qtype = JStr ''Range'', qbin = JStr ''age'', qmin = JInt 18, qmax = JInt 65,
      qvalue = JUndefined\<rparr>"

definition equal_query :: queryConfig where
  "equal_query =
     \<lparr>qtype = JStr ''Equal'', qbin = JStr ''name'', qmin = JUndefined, qmax = JUndefined,
      qvalue = JStr ''x''\<rparr>"

definition other_query :: queryConfig where
  "other_query =
     \<lparr>qtype = JStr ''Prefix'', qbin = JStr ''name'', qmin = JUndefined, qmax = JUndefined,
      qvalue = JStr ''x''\<rparr>"

text \<open>Two processes, read/write only, two iterations each.\<close>

definition example_argv :: argv where
  "example_argv =
     \<lparr>processes = 2, operations = 1000, reads = 7, writes = 3, time = None,
      iterations = Some 2, querySpec = None, scanSpec = None, keyRange = Some (0, 1000),
      namespace = JStr ''test'', set_name = JStr ''demo'', binSpec = JUndefined,
      silent = True, summary = False\<rparr>"

definition report_a :: table where
  "report_a = [[Fin 10, Fin 0, Fin 0], [Fin 0, Fin 0, Fin 0],
               [Fin 0, Fin 0, Fin 0], [Fin 0, Fin 0, Fin 0]]"

definition report_b :: table where
  "report_b = [[Fin 15, Fin 1, Fin 0], [Fin 0, Fin 0, Fin 0],
               [Fin 0, Fin 0, Fin 0], [Fin 0, Fin 0, Fin 0]]"

text \<open>The example with three query specifications: a range, an equality, an unknown type.\<close>

definition query_argv :: argv where
  "query_argv = example_argv\<lparr>querySpec := Some [range_query, equal_query, other_query]\<rparr>"

text \<open>
  Four processes for two query specifications and one scan specification (one read/write
  worker is left); one process for two query specifications (the difference is negative);
  one process for one query specification.
\<close>

definition roles_argv :: argv where
  "roles_argv =
     example_argv\<lparr>processes := 4, querySpec := Some [range_query, equal_query],
                  scanSpec := Some [JStr ''all'']\<rparr>"

definition negative_argv :: argv where
  "negative_argv = example_argv\<lparr>processes := 1, querySpec := Some [range_query, equal_query]\<rparr>"

definition query_only_argv :: argv where
  "query_only_argv = example_argv\<lparr>processes := 1, querySpec := Some [range_query]\<rparr>"


text \<open>
  The globals when worker 1 has been given its first, and then its second, read/write job,
  and the globals with two workers online.
\<close>

definition first_job_state :: master where
  "first_job_state = fst (rwWorkerJob example_argv (globals example_argv) 1)"

definition second_job_state :: master where
  "second_job_state = fst (rwWorkerJob example_argv first_job_state 1)"

definition example_job :: run_option where
  "example_job =
     \<lparr>ro_namespace = JStr ''test'', ro_set = JStr ''demo'', ro_keyRange = Some (0, 1000),
      rops = ROPS (globals example_argv), wops = WOPS (globals example_argv),
      ro_binSpec = JUndefined\<rparr>"

definition two_online_state :: master where
  "two_online_state = (globals example_argv)\<lparr>online := 2\<rparr>"

text \<open>
  Three processes; a report with \<open>2 ^ 53\<close> read operations and a report with one; the
  globals after one interval report has been counted.
\<close>

definition three_argv :: argv where
  "three_argv = example_argv\<lparr>processes := 3\<rparr>"

definition report_big :: table where
  "report_big = [[Fin 9007199254740992, Fin 0, Fin 0], [Fin 0, Fin 0, Fin 0],
                 [Fin 0, Fin 0, Fin 0], [Fin 0, Fin 0, Fin 0]]"

definition report_one :: table where
  "report_one = [[Fin 1, Fin 0, Fin 0], [Fin 0, Fin 0, Fin 0],
                 [Fin 0, Fin 0, Fin 0], [Fin 0, Fin 0, Fin 0]]"

definition one_counted_state :: master where
  "one_counted_state = (globals example_argv)\<lparr>counter := 1\<rparr>"

text \<open>The counts of \<open>report_a\<close> and \<open>report_b\<close>, and a table of zero counts.\<close>

definition counts_a :: "nat list list" where
  "counts_a = [[10, 0, 0], [0, 0, 0], [0, 0, 0], [0, 0, 0]]"

definition counts_b :: "nat list list" where
  "counts_b = [[15, 1, 0], [0, 0, 0], [0, 0, 0], [0, 0, 0]]"

definition counts_zero :: "nat list list" where
  "counts_zero = [[0, 0, 0], [0, 0, 0], [0, 0, 0], [0, 0, 0]]"

section \<open>Properties\<close>

subsection \<open>Integers up to \<open>2 ^ 53\<close> are doubles\<close>

lemma bits_lower:
  "0 < n \<Longrightarrow> 1 \<le> bits n \<and> 2 ^ nat (bits n - 1) \<le> n"
proof (induction n rule: bits.induct)
  case (1 n)
  have unfold: "bits n = 1 + bits (n div 2)"
    using "1.prems" by (subst bits.simps) simp
  show ?case
  proof (cases "0 < n div 2")
    case False
    then have "bits (n div 2) = 0"
      by (subst bits.simps) simp
    then show ?thesis
      using "1.prems" unfold by simp
  next
    case True
    have ih: "1 \<le> bits (n div 2)" "2 ^ nat (bits (n div 2) - 1) \<le> n div 2"
      using "1.IH" True "1.prems" by simp_all
    have "nat (bits (n div 2)) = Suc (nat (bits (n div 2) - 1))"
      using ih(1) by simp
    then have "(2::int) ^ nat (bits (n div 2)) = 2 * 2 ^ nat (bits (n div 2) - 1)"
      by simp
    also have "\<dots> \<le> 2 * (n div 2)"
      using ih(2) by simp
    also have "\<dots> \<le> n"
      by simp
    finally show ?thesis
      using ih(1) unfold by simp
  qed
qed

lemma bits_one: "bits 1 = 1"
  by (subst bits.simps, subst bits.simps) simp

lemma ilog2_of_int:
  assumes "0 < m"
  shows "ilog2 (of_int m) = bits m - 1"
proof -
  have low: "1 \<le> bits m" "2 ^ nat (bits m - 1) \<le> m"
    using bits_lower [OF assms] by simp_all
  have "(2::rat) ^ nat (bits m - 1) = of_int (2 ^ nat (bits m - 1))"
    by simp
  also have "\<dots> \<le> of_int m"
    using low(2) by (simp only: of_int_le_iff)
  finally have "pow2 (bits m - 1) \<le> of_int m"
    using low(1) by (simp add: pow2_def)
  then show ?thesis
    by (simp add: ilog2_def bits_one)
qed

lemma round_half_even_of_int: "round_half_even (of_int z) = z"
  by (simp add: round_half_even_def)

lemma fl_pos_int:
  assumes "0 < m" and "m \<le> 2 ^ 53"
  shows "fl (of_int m) = Fin (of_int m)"
proof -
  define d where "d = bits m - 1"
  define e where "e = d - 52"
  have low: "0 \<le> d" "2 ^ nat d \<le> m"
    using bits_lower [OF assms(1)] by (simp_all add: d_def)
  have le53: "(2::int) ^ nat d \<le> 2 ^ 53"
    using low(2) assms(2) by simp
  have "nat d \<le> 53"
  proof (rule power_le_imp_le_exp [of "2::int"])
    show "(1::int) < 2" by simp
    show "(2::int) ^ nat d \<le> 2 ^ 53" by (rule le53)
  qed
  then have d53: "d \<le> 53"
    by simp
  have il: "ilog2 \<bar>of_int m\<bar> = d"
    using assms(1) ilog2_of_int [OF assms(1)] by (simp add: d_def)
  have ex: "max (ilog2 \<bar>of_int m\<bar> - 52) (- 1074) = e"
    using low(1) by (simp add: il e_def)
  obtain z :: int where z: "\<bar>of_int m\<bar> / pow2 e = (of_int z :: rat)"
    and scaled: "(of_int z :: rat) * pow2 e = of_int m"
  proof (cases "d \<le> 52")
    case True
    define k where "k = nat (52 - d)"
    have p: "pow2 e = 1 / 2 ^ k"
    proof (cases "d = 52")
      case True
      then show ?thesis by (simp add: pow2_def e_def k_def)
    next
      case False
      then have "e < 0" using \<open>d \<le> 52\<close> by (simp add: e_def)
      moreover have "nat (- e) = k" by (simp add: e_def k_def)
      ultimately show ?thesis by (simp add: pow2_def)
    qed
    have "\<bar>of_int m\<bar> / pow2 e = (of_int (m * 2 ^ k) :: rat)"
      using assms(1) by (simp add: p)
    moreover have "(of_int (m * 2 ^ k) :: rat) * pow2 e = of_int m"
      by (simp add: p)
    ultimately show ?thesis
      using that by blast
  next
    case False
    then have d: "d = 53"
      using d53 by simp
    then have "(2::int) ^ 53 \<le> m"
      using low(2) by simp
    then have m: "m = 2 ^ 53"
      using assms(2) by simp
    have p: "pow2 e = 2"
      by (simp add: d e_def pow2_def)
    have "\<bar>of_int m\<bar> / pow2 e = (of_int (2 ^ 52) :: rat)"
      unfolding p by (simp add: m)
    moreover have "(of_int (2 ^ 52) :: rat) * pow2 e = of_int m"
      unfolding p by (simp add: m)
    ultimately show ?thesis
      using that by blast
  qed
  have y: "of_int (round_half_even (\<bar>of_int m\<bar> / pow2 e)) * pow2 e = (of_int m :: rat)"
    by (simp only: z round_half_even_of_int scaled)
  have "bits m \<le> 54"
    using d53 by (simp add: d_def)
  then have small: "\<not> 1024 < bits \<lfloor>(of_int m :: rat)\<rfloor>"
    by simp
  have nz: "(of_int m :: rat) \<noteq> 0" and pos: "(0::rat) < of_int m"
    using assms(1) by simp_all
  show ?thesis
    unfolding fl_def Let_def ex y using small nz pos by simp
qed

lemma fl_nat: "k \<le> 2 ^ 53 \<Longrightarrow> fl (of_nat k) = Fin (of_nat k)"
proof (cases "k = 0")
  case True
  then show ?thesis by (simp add: fl_def)
next
  case False
  assume "k \<le> 2 ^ 53"
  then have "int k \<le> 2 ^ 53"
    by (metis of_nat_le_iff of_nat_numeral of_nat_power)
  then have "fl (of_int (int k)) = Fin (of_int (int k))"
    using False by (intro fl_pos_int) simp_all
  then show ?thesis by simp
qed

lemma js_add_counts:
  "x + y \<le> 2 ^ 53 \<Longrightarrow> js_add (Fin (of_nat x)) (Fin (of_nat y)) = Fin (of_nat (x + y))"
  using fl_nat [of "x + y"] by simp

lemma small_doubles:
  "fl 0 = Fin 0" "fl 1 = Fin 1" "fl 10 = Fin 10" "fl 15 = Fin 15" "fl 25 = Fin 25"
  using fl_nat [of 0] fl_nat [of 1] fl_nat [of 10] fl_nat [of 15] fl_nat [of 25]
  by simp_all

subsection \<open>The counter loops on well-formed tables\<close>

lemma inner_loop_step:
  "j < STATS \<Longrightarrow> inner_loop s w i j =
     (case add_cell s w i j of Inl e \<Rightarrow> Inl e | Inr s' \<Rightarrow> inner_loop s' w i (j + 1))"
  by (subst inner_loop.simps) simp

lemma inner_loop_done: "\<not> j < STATS \<Longrightarrow> inner_loop s w i j = Inr s"
  by (subst inner_loop.simps) simp

lemma outer_loop_step:
  "i < OP_TYPES \<Longrightarrow> outer_loop s w i =
     (case inner_loop s w i 0 of Inl e \<Rightarrow> Inl e | Inr s' \<Rightarrow> outer_loop s' w (i + 1))"
  by (subst outer_loop.simps) simp

lemma outer_loop_done: "\<not> i < OP_TYPES \<Longrightarrow> outer_loop s w i = Inr s"
  by (subst outer_loop.simps) simp

lemma length3: "length (r::'a list) = 3 \<Longrightarrow> \<exists>x y z. r = [x, y, z]"
  by (auto simp: numeral_3_eq_3 length_Suc_conv)

lemma well_formed_explicit:
  assumes "well_formed t"
  shows "\<exists>a0 a1 a2 b0 b1 b2 c0 c1 c2 d0 d1 d2.
           t = [[a0, a1, a2], [b0, b1, b2], [c0, c1, c2], [d0, d1, d2]]"
proof -
  from assms have "length t = Suc (Suc (Suc (Suc 0)))"
    by (simp add: well_formed_def OP_TYPES_def)
  then obtain r0 r1 r2 r3 where t: "t = [r0, r1, r2, r3]"
    by (auto simp: length_Suc_conv)
  with assms have "length r0 = 3" "length r1 = 3" "length r2 = 3" "length r3 = 3"
    by (simp_all add: well_formed_def STATS_def)
  then show ?thesis
    using t by (metis length3)
qed

lemma inner_loop_row:
  assumes "i < length s" "i < length w" "s ! i = [x0, x1, x2]" "w ! i = [y0, y1, y2]"
  shows "inner_loop s w i 0 =
           Inr (s[i := [js_add x0 y0, js_add x1 y1, js_add x2 y2]])"
  using assms
  by (simp add: inner_loop_step inner_loop_done STATS_def add_cell_def read_cell_def
        write_cell_def)

lemma outer_loop_explicit:
  "outer_loop [[a0, a1, a2], [b0, b1, b2], [c0, c1, c2], [d0, d1, d2]]
              [[e0, e1, e2], [f0, f1, f2], [g0, g1, g2], [h0, h1, h2]] 0 =
   Inr (add_tables [[a0, a1, a2], [b0, b1, b2], [c0, c1, c2], [d0, d1, d2]]
                   [[e0, e1, e2], [f0, f1, f2], [g0, g1, g2], [h0, h1, h2]])"
  by (simp add: outer_loop_step outer_loop_done inner_loop_row OP_TYPES_def add_tables_def)

lemma outer_loop_well_formed:
  assumes "well_formed s" "well_formed w"
  shows "outer_loop s w 0 = Inr (add_tables s w)"
proof -
  from well_formed_explicit [OF assms(1)] well_formed_explicit [OF assms(2)]
  show ?thesis by (auto simp: outer_loop_explicit)
qed

lemma well_formed_add_tables:
  assumes "well_formed s" "well_formed w"
  shows "well_formed (add_tables s w)"
proof -
  from well_formed_explicit [OF assms(1)] well_formed_explicit [OF assms(2)]
  show ?thesis
    by (auto simp: add_tables_def well_formed_def OP_TYPES_def STATS_def)
qed

lemma map2_right_commute:
  assumes "\<And>a b c. f (f a b) c = f (f a c) b"
  shows "map2 f (map2 f z x) y = map2 f (map2 f z y) x"
proof (induction z arbitrary: x y)
  case Nil
  show ?case by simp
next
  case (Cons c z)
  show ?case
    by (cases x; cases y) (simp_all add: Cons.IH assms)
qed

lemma js_rem_zero_iff: "js_rem x y = Num 0 \<longleftrightarrow> y \<noteq> 0 \<and> y dvd x"
proof (cases "y = 0")
  case True
  then show ?thesis by (simp add: js_rem_def)
next
  case False
  have "\<bar>x\<bar> mod \<bar>y\<bar> = 0 \<longleftrightarrow> y dvd x"
    by (simp add: mod_eq_0_iff_dvd)
  moreover have "x = 0 \<Longrightarrow> y dvd x" by simp
  ultimately show ?thesis
    using False by (auto simp: js_rem_def sgn_if)
qed

lemma worker_results_interval_well_formed:
  assumes "well_formed (interval_stats st)" "well_formed t"
  shows "worker_results_interval a st w (Counters t) =
           Inr (st\<lparr>interval_stats := add_tables (interval_stats st) t,
                     counter := counter st + 1\<rparr>,
                if processes a \<noteq> 0 \<and> processes a dvd counter st + 1
                then flush a (st\<lparr>interval_stats := add_tables (interval_stats st) t,
                                   counter := counter st + 1\<rparr>)
                else [])"
  by (simp add: worker_results_interval_def outer_loop_well_formed [OF assms] Let_def
        js_rem_zero_iff)

lemma tick_resets: "interval_stats (fst (tick st)) = zero_table"
  by (simp add: tick_def reset_interval_stats_def zero_table_def OP_TYPES_def STATS_def
        numeral_eq_Suc)

lemma duration_resets: "interval_stats (fst (duration_elapsed st)) = zero_table"
  by (simp add: duration_elapsed_def reset_interval_stats_def zero_table_def OP_TYPES_def
        STATS_def numeral_eq_Suc)

lemma well_formed_zero: "well_formed (interval_stats (globals a))"
  by (simp add: globals_def Let_def reset_interval_stats_def well_formed_def OP_TYPES_def
        STATS_def)

lemma well_formed_report_a: "well_formed report_a"
  by (simp add: report_a_def well_formed_def OP_TYPES_def STATS_def)

lemma well_formed_report_b: "well_formed report_b"
  by (simp add: report_b_def well_formed_def OP_TYPES_def STATS_def)

subsection \<open>Interval reports, flush and reset\<close>

text \<open>
  C1 as the specification states it: the global table is all-zero right after a flush, and a
  flush occurs exactly when the reports received in the current tick are as many as the live
  workers. The run below refutes both halves. Two workers are forked and come online; none
  exits, so two workers are live throughout. The timer ticks (reset and probe) and only
  worker 1 reports before it ticks again; then worker 2 reports. This report is the only
  one of its tick, yet it flushes, since it is the second report since the start and
  \<open>argv.processes\<close> is 2; what is handed over is the table of worker 2 alone, and after the
  flush the global table still holds it.
\<close>

theorem flush_keeps_table_counterexample:
  "outcome (controller example_argv True
              [Online 1, Online 2, Tick, Message 1 (''trans'', Counters report_a), Tick,
               Message 2 (''trans'', Counters report_b)]) =
     Inr ((report_b, 2, [1, 2], None),
          [Setup_alert_system, Set_interval 1000, Stats_start, Fork 1, Fork 2,
           Send 1 (Run \<lparr>ro_namespace = JStr ''test'', ro_set = JStr ''demo'',
              ro_keyRange = Some (0, 1000), rops = Fin 700, wops = Fin 300,
              ro_binSpec = JUndefined\<rparr>),
           Send 2 (Run \<lparr>ro_namespace = JStr ''test'', ro_set = JStr ''demo'',
              ro_keyRange = Some (0, 1000), rops = Fin 700, wops = Fin 300,
              ro_binSpec = JUndefined\<rparr>),
           Send 1 Trans, Send 2 Trans, Send 1 Trans, Send 2 Trans,
           Stats_interval [Fin 15, Fin 1, Fin 0] [Fin 0, Fin 0, Fin 0]
             [Fin 0, Fin 0, Fin 0] [Fin 0, Fin 0, Fin 0]])
   \<and> report_b \<noteq> zero_table"
  by code_simp

text \<open>
  C1, amended: an interval report with a well-formed table adds the table to the global
  table, cell by cell, and counts the report. It flushes (hands the rows of the summed table
  to the stats module, and logs them unless silent) if and only if \<open>argv.processes\<close> is not
  zero and divides the number of interval reports received since the start, this one
  included. The flush leaves the global table as it is; the table is reset to all-zero by
  the one-second timer and by the duration timer.
\<close>

theorem interval_report_flush:
  assumes "well_formed (interval_stats st)" and "well_formed t"
    and "st' = st\<lparr>interval_stats := add_tables (interval_stats st) t,
                     counter := counter st + 1\<rparr>"
  shows "worker_results_interval a st w (Counters t) =
           Inr (st',
                if processes a \<noteq> 0 \<and> processes a dvd counter st'
                then Stats_interval (row_at (interval_stats st') 0)
                       (row_at (interval_stats st') 1) (row_at (interval_stats st') 2)
                       (row_at (interval_stats st') 3) #
                     (if silent a then [] else print_interval_stats st')
                else [])
         \<and> interval_stats (fst (tick st')) = zero_table
         \<and> interval_stats (fst (duration_elapsed st')) = zero_table"
  using worker_results_interval_well_formed [OF assms(1,2), of a w] tick_resets
    duration_resets
  by (simp add: assms(3) flush_def)

theorem interval_report_flush_witness:
  "well_formed (interval_stats (globals example_argv)) \<and> well_formed report_a \<and>
   worker_results_interval (example_argv\<lparr>processes := 1\<rparr>) (globals example_argv) 1
       (Counters report_a) =
     Inr ((globals example_argv)\<lparr>interval_stats := report_a, counter := 1\<rparr>,
          [Stats_interval [Fin 10, Fin 0, Fin 0] [Fin 0, Fin 0, Fin 0]
             [Fin 0, Fin 0, Fin 0] [Fin 0, Fin 0, Fin 0]]) \<and>
   interval_stats
     (fst (tick ((globals example_argv)\<lparr>interval_stats := report_a, counter := 1\<rparr>))) =
     zero_table"
proof -
  let ?st' = "(globals example_argv)\<lparr>interval_stats := report_a, counter := 1\<rparr>"
  have h1: "well_formed (interval_stats (globals example_argv))"
    by (rule well_formed_zero)
  have h2: "well_formed report_a"
    by (rule well_formed_report_a)
  have h3: "?st' = (globals example_argv)
                     \<lparr>interval_stats :=
                        add_tables (interval_stats (globals example_argv)) report_a,
                      counter := counter (globals example_argv) + 1\<rparr>"
    by (simp add: globals_def Let_def reset_interval_stats_def add_tables_def report_a_def
          small_doubles)
  have fires: "processes (example_argv\<lparr>processes := 1\<rparr>) \<noteq> 0 \<and>
               processes (example_argv\<lparr>processes := 1\<rparr>) dvd counter ?st'"
    by simp
  have rows: "row_at report_a 0 = [Fin 10, Fin 0, Fin 0]"
    "row_at report_a 1 = [Fin 0, Fin 0, Fin 0]"
    "row_at report_a 2 = [Fin 0, Fin 0, Fin 0]"
    "row_at report_a 3 = [Fin 0, Fin 0, Fin 0]"
    by (simp_all add: row_at_def report_a_def)
  have silent: "silent (example_argv\<lparr>processes := 1\<rparr>)"
    by (simp add: example_argv_def)
  note inst = interval_report_flush [OF h1 h2 h3, of "example_argv\<lparr>processes := 1\<rparr>" 1]
  have "worker_results_interval (example_argv\<lparr>processes := 1\<rparr>) (globals example_argv) 1
          (Counters report_a) =
        Inr (?st', [Stats_interval [Fin 10, Fin 0, Fin 0] [Fin 0, Fin 0, Fin 0]
                      [Fin 0, Fin 0, Fin 0] [Fin 0, Fin 0, Fin 0]])"
    using rows inst fires by (simp add: silent)
  then show ?thesis
    using h1 h2 inst by blast
qed

subsection \<open>The dispatcher\<close>

text \<open>
  C10: a message whose tag is neither \<open>stats\<close> nor \<open>alert\<close>, whatever the tag, is handled
  as an interval report: the dispatcher calls \<open>worker_results_interval\<close> on its payload, and a
  well-formed counters table in it is added to the global table. No tag is rejected.
\<close>

theorem unknown_tag_is_interval_report:
  assumes "fst m \<noteq> ''stats''" and "fst m \<noteq> ''alert''"
  shows "worker_results a st w m = worker_results_interval a st w (snd m)
         \<and> (\<forall>t. snd m = Counters t \<and> well_formed (interval_stats st) \<and> well_formed t \<longrightarrow>
               (\<exists>effs. worker_results a st w m =
                  Inr (st\<lparr>interval_stats := add_tables (interval_stats st) t,
                            counter := counter st + 1\<rparr>, effs)))"
  using assms by (simp add: worker_results_def worker_results_interval_well_formed)

theorem unknown_tag_is_interval_report_witness:
  "fst (''bogus'', Counters report_a) \<noteq> ''stats'' \<and>
   fst (''bogus'', Counters report_a) \<noteq> ''alert'' \<and>
   well_formed (interval_stats (globals example_argv)) \<and> well_formed report_a \<and>
   worker_results example_argv (globals example_argv) 1 (''bogus'', Counters report_a) =
     Inr ((globals example_argv)\<lparr>interval_stats := report_a, counter := 1\<rparr>, [])"
proof -
  have h1: "fst (''bogus'', Counters report_a) \<noteq> ''stats''" by simp
  have h2: "fst (''bogus'', Counters report_a) \<noteq> ''alert''" by simp
  have sum: "add_tables (interval_stats (globals example_argv)) report_a = report_a"
    by (simp add: globals_def Let_def reset_interval_stats_def add_tables_def report_a_def
          small_doubles)
  have cnt: "counter (globals example_argv) = 0"
    by (simp add: globals_def Let_def reset_interval_stats_def)
  have procs: "processes example_argv = 2"
    by (simp add: example_argv_def)
  have "worker_results example_argv (globals example_argv) 1 (''bogus'', Counters report_a) =
          worker_results_interval example_argv (globals example_argv) 1 (Counters report_a)"
    using unknown_tag_is_interval_report [OF h1 h2] by simp
  also have "\<dots> = Inr ((globals example_argv)\<lparr>interval_stats := report_a, counter := 1\<rparr>, [])"
    by (simp add: worker_results_interval_well_formed well_formed_zero well_formed_report_a
          sum cnt procs)
  finally show ?thesis
    using h1 h2 well_formed_zero well_formed_report_a by simp
qed

subsection \<open>Query jobs\<close>

text \<open>
  C8: the job built for a query worker from the query specification at its index carries
  one range filter (bin, min, max) when \<open>qtype\<close> is \<open>Range\<close>, one equality filter
  (bin, value) when \<open>qtype\<close> is \<open>Equal\<close>, and a statement without filters for any other
  \<open>qtype\<close>.
\<close>

theorem query_filter_by_qtype:
  assumes "querySpec a = Some qs" and "0 \<le> ident" and "nat ident < length qs"
  shows "(qtype (qs ! nat ident) = JStr ''Range'' \<longrightarrow>
            queryWorkerJob a w ident =
              Inr [Send w (Query \<lparr>qo_namespace = namespace a, qo_set = set_name a,
                     qo_statement = Stmt (Some [Filter_range (qbin (qs ! nat ident))
                       (qmin (qs ! nat ident)) (qmax (qs ! nat ident))])\<rparr>)])
       \<and> (qtype (qs ! nat ident) = JStr ''Equal'' \<longrightarrow>
            queryWorkerJob a w ident =
              Inr [Send w (Query \<lparr>qo_namespace = namespace a, qo_set = set_name a,
                     qo_statement = Stmt (Some [Filter_equal (qbin (qs ! nat ident))
                       (qvalue (qs ! nat ident))])\<rparr>)])
       \<and> (qtype (qs ! nat ident) \<noteq> JStr ''Range'' \<and> qtype (qs ! nat ident) \<noteq> JStr ''Equal'' \<longrightarrow>
            queryWorkerJob a w ident =
              Inr [Send w (Query \<lparr>qo_namespace = namespace a, qo_set = set_name a,
                     qo_statement = Stmt None\<rparr>)])"
  using assms by (simp add: queryWorkerJob_def Let_def)

theorem query_filter_by_qtype_witness:
  "querySpec query_argv = Some [range_query, equal_query, other_query] \<and>
   queryWorkerJob query_argv 5 0 =
     Inr [Send 5 (Query \<lparr>qo_namespace = JStr ''test'', qo_set = JStr ''demo'',
            qo_statement = Stmt (Some [Filter_range (JStr ''age'') (JInt 18) (JInt 65)])\<rparr>)] \<and>
   queryWorkerJob query_argv 5 1 =
     Inr [Send 5 (Query \<lparr>qo_namespace = JStr ''test'', qo_set = JStr ''demo'',
            qo_statement = Stmt (Some [Filter_equal (JStr ''name'') (JStr ''x'')])\<rparr>)] \<and>
   queryWorkerJob query_argv 5 2 =
     Inr [Send 5 (Query \<lparr>qo_namespace = JStr ''test'', qo_set = JStr ''demo'',
            qo_statement = Stmt None\<rparr>)]"
proof -
  have qs: "querySpec query_argv = Some [range_query, equal_query, other_query]"
    by (simp add: query_argv_def)
  have names: "namespace query_argv = JStr ''test''" "set_name query_argv = JStr ''demo''"
    by (simp_all add: query_argv_def example_argv_def)
  show ?thesis
    using qs query_filter_by_qtype [OF qs, of 0 5] query_filter_by_qtype [OF qs, of 1 5]
      query_filter_by_qtype [OF qs, of 2 5]
    by (simp add: names range_query_def equal_query_def other_query_def)
qed

subsection \<open>Folding interval reports\<close>

lemma sum_tables_Cons: "sum_tables t (u # us) = sum_tables (add_tables t u) us"
  by (simp add: sum_tables_def)

lemma sum_tables_snoc: "sum_tables t (us @ [u]) = add_tables (sum_tables t us) u"
  by (simp add: sum_tables_def)

lemma well_formed_sum_tables:
  "well_formed t \<Longrightarrow> list_all well_formed us \<Longrightarrow> well_formed (sum_tables t us)"
  by (induction us arbitrary: t) (simp_all add: sum_tables_def well_formed_add_tables)

lemma interval_reports_append:
  "interval_reports a st (xs @ ys) =
     (case interval_reports a st xs of
        Inl e \<Rightarrow> Inl e
      | Inr (st1, e1) \<Rightarrow>
          (case interval_reports a st1 ys of
             Inl e \<Rightarrow> Inl e
           | Inr (st2, e2) \<Rightarrow> Inr (st2, e1 @ e2)))"
  by (induction xs arbitrary: st) (auto split: sum.splits prod.splits)

lemma interval_reports_quiet:
  assumes "well_formed (interval_stats st)"
    and "list_all (\<lambda>r. well_formed (snd r)) rs"
    and "\<And>k. 1 \<le> k \<Longrightarrow> k \<le> int (length rs) \<Longrightarrow>
            \<not> (processes a \<noteq> 0 \<and> processes a dvd counter st + k)"
  shows "interval_reports a st rs =
           Inr (st\<lparr>interval_stats := sum_tables (interval_stats st) (map snd rs),
                     counter := counter st + int (length rs)\<rparr>, [])"
  using assms
proof (induction rs arbitrary: st)
  case Nil
  show ?case by (simp add: sum_tables_def)
next
  case (Cons r rs)
  let ?st1 = "st\<lparr>interval_stats := add_tables (interval_stats st) (snd r),
                   counter := counter st + 1\<rparr>"
  have wr: "well_formed (snd r)" and wrs: "list_all (\<lambda>r. well_formed (snd r)) rs"
    using Cons.prems(2) by simp_all
  have first: "\<not> (processes a \<noteq> 0 \<and> processes a dvd counter st + 1)"
    using Cons.prems(3) [of 1] by simp
  have step: "worker_results_interval a st (fst r) (Counters (snd r)) = Inr (?st1, [])"
    using first worker_results_interval_well_formed [OF Cons.prems(1) wr, of a "fst r"]
    by auto
  have wf1: "well_formed (interval_stats ?st1)"
    using Cons.prems(1) wr by (simp add: well_formed_add_tables)
  have later: "\<not> (processes a \<noteq> 0 \<and> processes a dvd counter ?st1 + k)"
    if "1 \<le> k" "k \<le> int (length rs)" for k
    using Cons.prems(3) [of "k + 1"] that by (simp add: algebra_simps)
  have "interval_reports a ?st1 rs =
          Inr (?st1\<lparr>interval_stats := sum_tables (interval_stats ?st1) (map snd rs),
                     counter := counter ?st1 + int (length rs)\<rparr>, [])"
    by (rule Cons.IH [OF wf1 wrs later])
  then show ?case
    by (simp add: step sum_tables_Cons algebra_simps)
qed

lemma interval_reports_well_formed:
  assumes "well_formed (interval_stats st)"
    and "list_all (\<lambda>r. well_formed (snd r)) rs"
  shows "\<exists>effs. interval_reports a st rs =
           Inr (st\<lparr>interval_stats := sum_tables (interval_stats st) (map snd rs),
                     counter := counter st + int (length rs)\<rparr>, effs)"
  using assms
proof (induction rs arbitrary: st)
  case Nil
  show ?case by (simp add: sum_tables_def)
next
  case (Cons r rs)
  let ?st1 = "st\<lparr>interval_stats := add_tables (interval_stats st) (snd r),
                   counter := counter st + 1\<rparr>"
  have wr: "well_formed (snd r)" and wrs: "list_all (\<lambda>r. well_formed (snd r)) rs"
    using Cons.prems(2) by simp_all
  obtain e1 where step: "worker_results_interval a st (fst r) (Counters (snd r)) = Inr (?st1, e1)"
    by (simp add: worker_results_interval_well_formed [OF Cons.prems(1) wr])
  have wf1: "well_formed (interval_stats ?st1)"
    using Cons.prems(1) wr by (simp add: well_formed_add_tables)
  obtain e2 where "interval_reports a ?st1 rs =
          Inr (?st1\<lparr>interval_stats := sum_tables (interval_stats ?st1) (map snd rs),
                     counter := counter ?st1 + int (length rs)\<rparr>, e2)"
    using Cons.IH [OF wf1 wrs] by blast
  then show ?case
    by (simp add: step sum_tables_Cons algebra_simps)
qed

lemma interval_reports_one_tick:
  assumes wf: "well_formed (interval_stats st)"
    and wfs: "list_all (\<lambda>r. well_formed (snd r)) rs"
    and full: "processes a = int (length rs)" and nonempty: "rs \<noteq> []"
    and start: "processes a dvd counter st"
  shows "interval_reports a st rs =
           Inr (st\<lparr>interval_stats := sum_tables (interval_stats st) (map snd rs),
                     counter := counter st + int (length rs)\<rparr>,
                flush a (st\<lparr>interval_stats := sum_tables (interval_stats st) (map snd rs),
                             counter := counter st + int (length rs)\<rparr>))"
proof -
  obtain xs x where rs: "rs = xs @ [x]"
    using nonempty by (metis rev_exhaust)
  let ?p = "processes a"
  have p: "?p = int (length xs) + 1"
    using full rs by simp
  have wxs: "list_all (\<lambda>r. well_formed (snd r)) xs" and wx: "well_formed (snd x)"
    using wfs rs by simp_all
  have quiet: "\<not> (?p \<noteq> 0 \<and> ?p dvd counter st + k)" if "1 \<le> k" "k \<le> int (length xs)" for k
  proof
    assume "?p \<noteq> 0 \<and> ?p dvd counter st + k"
    then have "?p dvd k"
      using start by (simp add: dvd_add_right_iff)
    then have "?p \<le> k"
      using that(1) by (intro zdvd_imp_le) simp_all
    then show False
      using that(2) p by simp
  qed
  let ?st1 = "st\<lparr>interval_stats := sum_tables (interval_stats st) (map snd xs),
                   counter := counter st + int (length xs)\<rparr>"
  have before: "interval_reports a st xs = Inr (?st1, [])"
    by (rule interval_reports_quiet [OF wf wxs quiet])
  have wf1: "well_formed (interval_stats ?st1)"
    using wf wxs by (simp add: well_formed_sum_tables list_all_iff)
  have fire: "?p \<noteq> 0 \<and> ?p dvd counter ?st1 + 1"
    using start p by (simp add: add.assoc)
  have "worker_results_interval a ?st1 (fst x) (Counters (snd x)) =
          Inr (?st1\<lparr>interval_stats := add_tables (interval_stats ?st1) (snd x),
                     counter := counter ?st1 + 1\<rparr>,
               flush a (?st1\<lparr>interval_stats := add_tables (interval_stats ?st1) (snd x),
                              counter := counter ?st1 + 1\<rparr>))"
    using fire worker_results_interval_well_formed [OF wf1 wx, of a "fst x"] by auto
  then show ?thesis
    by (simp add: rs interval_reports_append before sum_tables_snoc algebra_simps)
qed

subsection \<open>Tables of counts\<close>

lemma count_shape_explicit:
  assumes "count_shape c"
  shows "\<exists>a0 a1 a2 b0 b1 b2 c0 c1 c2 d0 d1 d2.
           c = [[a0, a1, a2], [b0, b1, b2], [c0, c1, c2], [d0, d1, d2]]"
proof -
  from assms have "length c = Suc (Suc (Suc (Suc 0)))"
    by (simp add: count_shape_def OP_TYPES_def)
  then obtain r0 r1 r2 r3 where c: "c = [r0, r1, r2, r3]"
    by (auto simp: length_Suc_conv)
  with assms have "length r0 = 3" "length r1 = 3" "length r2 = 3" "length r3 = 3"
    by (simp_all add: count_shape_def STATS_def)
  then show ?thesis
    using c by (metis length3)
qed

lemma well_formed_count_table: "count_shape c \<Longrightarrow> well_formed (count_table c)"
  by (simp add: count_shape_def well_formed_def count_table_def list_all_iff)

lemma count_shape_add_counts:
  assumes "count_shape c" and "count_shape d"
  shows "count_shape (add_counts c d)"
proof -
  from count_shape_explicit [OF assms(1)] count_shape_explicit [OF assms(2)]
  show ?thesis
    by (auto simp: add_counts_def count_shape_def OP_TYPES_def STATS_def)
qed

lemma exact_counts_left:
  assumes "count_shape c" and "count_shape d" and "exact_counts (add_counts c d)"
  shows "exact_counts c"
proof -
  from count_shape_explicit [OF assms(1)] count_shape_explicit [OF assms(2)] assms(3)
  show ?thesis
    by (auto simp: add_counts_def exact_counts_def)
qed

lemma add_tables_counts:
  assumes "count_shape c" and "count_shape d" and "exact_counts (add_counts c d)"
  shows "add_tables (count_table c) (count_table d) = count_table (add_counts c d)"
proof -
  from count_shape_explicit [OF assms(1)] count_shape_explicit [OF assms(2)] assms(3)
  show ?thesis
    by (auto simp: add_counts_def exact_counts_def add_tables_def count_table_def
          js_add_counts simp del: js_add.simps of_nat_add)
qed

lemma total_counts_Cons: "total_counts c (d # ds) = total_counts (add_counts c d) ds"
  by (simp add: total_counts_def)

lemma exact_counts_start:
  assumes "count_shape c" and "list_all count_shape ds"
    and "exact_counts (total_counts c ds)"
  shows "exact_counts c"
  using assms
proof (induction ds arbitrary: c)
  case Nil
  then show ?case by (simp add: total_counts_def)
next
  case (Cons d ds)
  have shape: "count_shape d" "list_all count_shape ds"
    using Cons.prems(2) by simp_all
  have "exact_counts (add_counts c d)"
    using Cons.IH [OF count_shape_add_counts [OF Cons.prems(1) shape(1)] shape(2)]
      Cons.prems(3)
    by (simp add: total_counts_Cons)
  then show ?case
    by (rule exact_counts_left [OF Cons.prems(1) shape(1)])
qed

lemma sum_tables_counts:
  assumes "count_shape c" and "list_all count_shape ds"
    and "exact_counts (total_counts c ds)"
  shows "sum_tables (count_table c) (map count_table ds) = count_table (total_counts c ds)"
  using assms
proof (induction ds arbitrary: c)
  case Nil
  show ?case by (simp add: sum_tables_def total_counts_def)
next
  case (Cons d ds)
  have shape: "count_shape d" "list_all count_shape ds"
    using Cons.prems(2) by simp_all
  have shape': "count_shape (add_counts c d)"
    by (rule count_shape_add_counts [OF Cons.prems(1) shape(1)])
  have total: "exact_counts (total_counts (add_counts c d) ds)"
    using Cons.prems(3) by (simp add: total_counts_Cons)
  have "exact_counts (add_counts c d)"
    by (rule exact_counts_start [OF shape' shape(2) total])
  then have "add_tables (count_table c) (count_table d) = count_table (add_counts c d)"
    by (rule add_tables_counts [OF Cons.prems(1) shape(1)])
  then show ?case
    using Cons.IH [OF shape' shape(2) total]
    by (simp add: sum_tables_def total_counts_Cons)
qed

lemma add_counts_right_commute:
  "add_counts (add_counts z x) y = add_counts (add_counts z y) x"
  unfolding add_counts_def
  by (rule map2_right_commute) (rule map2_right_commute, simp)

lemma total_counts_permutation:
  assumes "mset ds = mset ds'"
  shows "total_counts c ds = total_counts c ds'"
proof -
  have "fold (\<lambda>d acc. add_counts acc d) ds = fold (\<lambda>d acc. add_counts acc d) ds'"
    by (rule fold_multiset_equiv) (simp_all add: assms fun_eq_iff add_counts_right_commute)
  then show ?thesis by (simp add: total_counts_def)
qed

lemma big_doubles:
  "fl 9007199254740992 = Fin 9007199254740992 \<and>
   fl 9007199254740993 = Fin 9007199254740992 \<and>
   fl 9007199254740994 = Fin 9007199254740994 \<and> fl 2 = Fin 2"
  by code_simp

text \<open>
  C9 as the specification states it: for every multiset of reports within one tick, the
  flushed table is the same for every arrival order. Two runs refute it. With three
  processes and the reports \<open>2 ^ 53\<close>, 1 and 1 (reads), the order \<open>2 ^ 53\<close>, 1, 1 flushes
  \<open>9007199254740992\<close> (each \<open>+ 1\<close> is rounded away) and the order 1, 1, \<open>2 ^ 53\<close> flushes
  \<open>9007199254740994\<close>: the addition of doubles at line 183 is not associative. And with two
  processes and one report already counted (left from a tick in which one worker was late),
  the flush comes after the first of the two reports, so the flushed table is that of
  whichever worker reports first.
\<close>

theorem fold_order_counterexample:
  "outcome (interval_reports three_argv (globals three_argv)
              [(1, report_big), (2, report_one), (3, report_one)]) =
     Inr (([[Fin 9007199254740992, Fin 0, Fin 0], [Fin 0, Fin 0, Fin 0],
            [Fin 0, Fin 0, Fin 0], [Fin 0, Fin 0, Fin 0]], 3, [], None),
          [Stats_interval [Fin 9007199254740992, Fin 0, Fin 0] [Fin 0, Fin 0, Fin 0]
             [Fin 0, Fin 0, Fin 0] [Fin 0, Fin 0, Fin 0]])
   \<and> outcome (interval_reports three_argv (globals three_argv)
              [(2, report_one), (3, report_one), (1, report_big)]) =
     Inr (([[Fin 9007199254740994, Fin 0, Fin 0], [Fin 0, Fin 0, Fin 0],
            [Fin 0, Fin 0, Fin 0], [Fin 0, Fin 0, Fin 0]], 3, [], None),
          [Stats_interval [Fin 9007199254740994, Fin 0, Fin 0] [Fin 0, Fin 0, Fin 0]
             [Fin 0, Fin 0, Fin 0] [Fin 0, Fin 0, Fin 0]])
   \<and> outcome (interval_reports example_argv one_counted_state
              [(1, report_a), (2, report_b)]) =
     Inr (([[Fin 25, Fin 1, Fin 0], [Fin 0, Fin 0, Fin 0],
            [Fin 0, Fin 0, Fin 0], [Fin 0, Fin 0, Fin 0]], 3, [], None),
          [Stats_interval [Fin 10, Fin 0, Fin 0] [Fin 0, Fin 0, Fin 0]
             [Fin 0, Fin 0, Fin 0] [Fin 0, Fin 0, Fin 0]])
   \<and> outcome (interval_reports example_argv one_counted_state
              [(2, report_b), (1, report_a)]) =
     Inr (([[Fin 25, Fin 1, Fin 0], [Fin 0, Fin 0, Fin 0],
            [Fin 0, Fin 0, Fin 0], [Fin 0, Fin 0, Fin 0]], 3, [], None),
          [Stats_interval [Fin 15, Fin 1, Fin 0] [Fin 0, Fin 0, Fin 0]
             [Fin 0, Fin 0, Fin 0] [Fin 0, Fin 0, Fin 0]])"
proof -
  have g3: "interval_stats (globals three_argv) =
              [[Fin 0, Fin 0, Fin 0], [Fin 0, Fin 0, Fin 0],
               [Fin 0, Fin 0, Fin 0], [Fin 0, Fin 0, Fin 0]]"
    "counter (globals three_argv) = 0" "workers (globals three_argv) = []"
    "exit_code (globals three_argv) = None"
    by (simp_all add: globals_def Let_def reset_interval_stats_def)
  have g2: "interval_stats one_counted_state =
              [[Fin 0, Fin 0, Fin 0], [Fin 0, Fin 0, Fin 0],
               [Fin 0, Fin 0, Fin 0], [Fin 0, Fin 0, Fin 0]]"
    "counter one_counted_state = 1" "workers one_counted_state = []"
    "exit_code one_counted_state = None"
    by (simp_all add: one_counted_state_def globals_def Let_def reset_interval_stats_def)
  have a3: "processes three_argv = 3" "silent three_argv"
    and a2: "processes example_argv = 2" "silent example_argv"
    by (simp_all add: three_argv_def example_argv_def)
  note defs = worker_results_interval_well_formed well_formed_def OP_TYPES_def STATS_def
    add_tables_def report_big_def report_one_def report_a_def report_b_def flush_def
    row_at_def outcome_def small_doubles
  have fl_big: "fl 9007199254740992 = Fin 9007199254740992"
    "fl 9007199254740993 = Fin 9007199254740992"
    "fl 9007199254740994 = Fin 9007199254740994" "fl 2 = Fin 2"
    using big_doubles by blast+
  show ?thesis
    by (simp add: defs g3 g2 a3 a2 fl_big)
qed

text \<open>
  C9, amended: let the global table and the reports hold counts (natural numbers, in
  well-formed tables) whose per-cell totals do not exceed \<open>2 ^ 53\<close>. Then for two arrival
  orders of the same multiset of reports the controller ends in the same state, whose table
  holds the exact per-cell totals. And when the reports are those of one full tick (as many
  as \<open>argv.processes\<close>, the count of reports before them a multiple of it), both orders
  flush once, after the last report, and hand the same table of totals to the stats module.
\<close>

theorem interval_fold_permutation:
  assumes "mset rs = mset rs'"
    and "count_shape c" and "list_all (\<lambda>r. count_shape (snd r)) rs"
    and "interval_stats st = count_table c"
    and "exact_counts (total_counts c (map snd rs))"
  shows "\<exists>effs effs'.
           interval_reports a st (map (\<lambda>r. (fst r, count_table (snd r))) rs) =
             Inr (st\<lparr>interval_stats := count_table (total_counts c (map snd rs)),
                       counter := counter st + int (length rs)\<rparr>, effs) \<and>
           interval_reports a st (map (\<lambda>r. (fst r, count_table (snd r))) rs') =
             Inr (st\<lparr>interval_stats := count_table (total_counts c (map snd rs)),
                       counter := counter st + int (length rs)\<rparr>, effs') \<and>
           (processes a = int (length rs) \<and> rs \<noteq> [] \<and> processes a dvd counter st \<longrightarrow>
              effs = flush a (st\<lparr>interval_stats :=
                                   count_table (total_counts c (map snd rs)),
                                 counter := counter st + int (length rs)\<rparr>) \<and>
              effs' = effs)"
proof -
  let ?R = "map (\<lambda>r. (fst r, count_table (snd r))) rs"
  let ?R' = "map (\<lambda>r. (fst r, count_table (snd r))) rs'"
  have counts: "mset (map snd rs) = mset (map snd rs')"
    using assms(1) by (metis mset_map)
  have len: "length rs' = length rs"
    using assms(1) by (metis mset_eq_length)
  have shapes: "list_all count_shape (map snd rs)"
    using assms(3) by (simp add: list_all_iff)
  have "set rs' = set rs"
    using assms(1) by (metis mset_eq_setD)
  then have shapes': "list_all count_shape (map snd rs')"
    using assms(3) by (simp add: list_all_iff)
  have same: "total_counts c (map snd rs') = total_counts c (map snd rs)"
    by (rule total_counts_permutation [OF counts [symmetric]])
  have wf: "well_formed (interval_stats st)"
    by (simp add: assms(4) well_formed_count_table assms(2))
  have wfs: "list_all (\<lambda>r. well_formed (snd r)) ?R"
    using shapes by (simp add: list_all_iff well_formed_count_table)
  have wfs': "list_all (\<lambda>r. well_formed (snd r)) ?R'"
    using shapes' by (simp add: list_all_iff well_formed_count_table)
  have tables: "map snd ?R = map count_table (map snd rs)"
    "map snd ?R' = map count_table (map snd rs')"
    by simp_all
  have sum: "sum_tables (interval_stats st) (map snd ?R) =
               count_table (total_counts c (map snd rs))"
    unfolding tables assms(4) by (rule sum_tables_counts [OF assms(2) shapes assms(5)])
  have exact': "exact_counts (total_counts c (map snd rs'))"
    using assms(5) by (simp only: same)
  have "sum_tables (interval_stats st) (map snd ?R') =
          count_table (total_counts c (map snd rs'))"
    unfolding tables assms(4) by (rule sum_tables_counts [OF assms(2) shapes' exact'])
  then have sum': "sum_tables (interval_stats st) (map snd ?R') =
                     count_table (total_counts c (map snd rs))"
    by (simp only: same)
  have lens: "length ?R = length rs" "length ?R' = length rs"
    by (simp_all add: len)
  show ?thesis
  proof (cases "processes a = int (length rs) \<and> rs \<noteq> [] \<and> processes a dvd counter st")
    case True
    then have start: "processes a dvd counter st"
      by blast
    have full: "processes a = int (length ?R)" and ne: "?R \<noteq> []"
      using True by auto
    have full': "processes a = int (length ?R')" and ne': "?R' \<noteq> []"
      using True len by auto
    have first: "interval_reports a st ?R =
        Inr (st\<lparr>interval_stats := count_table (total_counts c (map snd rs)),
                  counter := counter st + int (length rs)\<rparr>,
             flush a (st\<lparr>interval_stats := count_table (total_counts c (map snd rs)),
                          counter := counter st + int (length rs)\<rparr>))"
      using interval_reports_one_tick [OF wf wfs full ne start] by (simp only: sum lens)
    have second: "interval_reports a st ?R' =
        Inr (st\<lparr>interval_stats := count_table (total_counts c (map snd rs)),
                  counter := counter st + int (length rs)\<rparr>,
             flush a (st\<lparr>interval_stats := count_table (total_counts c (map snd rs)),
                          counter := counter st + int (length rs)\<rparr>))"
      using interval_reports_one_tick [OF wf wfs' full' ne' start] by (simp only: sum' lens)
    show ?thesis
      using first second by blast
  next
    case False
    obtain effs where first: "interval_reports a st ?R =
        Inr (st\<lparr>interval_stats := count_table (total_counts c (map snd rs)),
                  counter := counter st + int (length rs)\<rparr>, effs)"
      using interval_reports_well_formed [OF wf wfs, of a] by (simp only: sum lens) blast
    obtain effs' where second: "interval_reports a st ?R' =
        Inr (st\<lparr>interval_stats := count_table (total_counts c (map snd rs)),
                  counter := counter st + int (length rs)\<rparr>, effs')"
      using interval_reports_well_formed [OF wf wfs', of a] by (simp only: sum' lens) blast
    show ?thesis
      using first second False by blast
  qed
qed

theorem interval_fold_permutation_witness:
  "mset [(1::nat, counts_a), (2, counts_b)] = mset [(2, counts_b), (1, counts_a)] \<and>
   count_shape counts_zero \<and>
   list_all (\<lambda>r. count_shape (snd r)) [(1::nat, counts_a), (2, counts_b)] \<and>
   interval_stats (globals example_argv) = count_table counts_zero \<and>
   exact_counts (total_counts counts_zero (map snd [(1::nat, counts_a), (2, counts_b)])) \<and>
   processes example_argv = int (length [(1::nat, counts_a), (2, counts_b)]) \<and>
   processes example_argv dvd counter (globals example_argv) \<and>
   count_table counts_a = report_a \<and> count_table counts_b = report_b \<and>
   interval_reports example_argv (globals example_argv) [(1, report_a), (2, report_b)] =
     Inr ((globals example_argv)
            \<lparr>interval_stats := [[Fin 25, Fin 1, Fin 0], [Fin 0, Fin 0, Fin 0],
                                [Fin 0, Fin 0, Fin 0], [Fin 0, Fin 0, Fin 0]],
             counter := 2\<rparr>,
          [Stats_interval [Fin 25, Fin 1, Fin 0] [Fin 0, Fin 0, Fin 0]
             [Fin 0, Fin 0, Fin 0] [Fin 0, Fin 0, Fin 0]]) \<and>
   interval_reports example_argv (globals example_argv) [(2, report_b), (1, report_a)] =
     Inr ((globals example_argv)
            \<lparr>interval_stats := [[Fin 25, Fin 1, Fin 0], [Fin 0, Fin 0, Fin 0],
                                [Fin 0, Fin 0, Fin 0], [Fin 0, Fin 0, Fin 0]],
             counter := 2\<rparr>,
          [Stats_interval [Fin 25, Fin 1, Fin 0] [Fin 0, Fin 0, Fin 0]
             [Fin 0, Fin 0, Fin 0] [Fin 0, Fin 0, Fin 0]])"
proof -
  let ?rs = "[(1::nat, counts_a), (2, counts_b)]"
  let ?st = "globals example_argv"
  have h1: "mset ?rs = mset [(2, counts_b), (1, counts_a)]"
    by simp
  have h2: "count_shape counts_zero"
    by (simp add: count_shape_def counts_zero_def OP_TYPES_def STATS_def)
  have h3: "list_all (\<lambda>r. count_shape (snd r)) ?rs"
    by (simp add: count_shape_def counts_a_def counts_b_def OP_TYPES_def STATS_def)
  have h4: "interval_stats ?st = count_table counts_zero"
    by (simp add: globals_def Let_def reset_interval_stats_def count_table_def
          counts_zero_def)
  have total: "total_counts counts_zero [counts_a, counts_b] =
                 [[25, 1, 0], [0, 0, 0], [0, 0, 0], [0, 0, 0]]"
    by (simp add: total_counts_def add_counts_def counts_zero_def counts_a_def counts_b_def)
  have h5: "exact_counts (total_counts counts_zero (map snd ?rs))"
    by (simp add: total exact_counts_def)
  have procs: "processes example_argv = int (length ?rs)"
    by (simp add: example_argv_def)
  have cnt: "counter ?st = 0"
    by (simp add: globals_def Let_def reset_interval_stats_def)
  have start: "processes example_argv dvd counter ?st"
    by (simp add: cnt)
  have ca: "count_table counts_a = report_a" and cb: "count_table counts_b = report_b"
    by (simp_all add: count_table_def counts_a_def counts_b_def report_a_def report_b_def)
  have totals: "count_table (total_counts counts_zero [counts_a, counts_b]) =
                  [[Fin 25, Fin 1, Fin 0], [Fin 0, Fin 0, Fin 0],
                   [Fin 0, Fin 0, Fin 0], [Fin 0, Fin 0, Fin 0]]"
    by (simp add: total count_table_def)
  have silent: "silent example_argv"
    by (simp add: example_argv_def)
  have handed:
    "flush example_argv
       (?st\<lparr>interval_stats := [[Fin 25, Fin 1, Fin 0], [Fin 0, Fin 0, Fin 0],
                                 [Fin 0, Fin 0, Fin 0], [Fin 0, Fin 0, Fin 0]],
             counter := 2\<rparr>) =
     [Stats_interval [Fin 25, Fin 1, Fin 0] [Fin 0, Fin 0, Fin 0]
        [Fin 0, Fin 0, Fin 0] [Fin 0, Fin 0, Fin 0]]"
    by (simp add: flush_def silent row_at_def)
  have "\<exists>effs effs'.
          interval_reports example_argv ?st [(1, report_a), (2, report_b)] =
            Inr (?st\<lparr>interval_stats := [[Fin 25, Fin 1, Fin 0], [Fin 0, Fin 0, Fin 0],
                                          [Fin 0, Fin 0, Fin 0], [Fin 0, Fin 0, Fin 0]],
                      counter := 2\<rparr>, effs) \<and>
          interval_reports example_argv ?st [(2, report_b), (1, report_a)] =
            Inr (?st\<lparr>interval_stats := [[Fin 25, Fin 1, Fin 0], [Fin 0, Fin 0, Fin 0],
                                          [Fin 0, Fin 0, Fin 0], [Fin 0, Fin 0, Fin 0]],
                      counter := 2\<rparr>, effs') \<and>
          effs = [Stats_interval [Fin 25, Fin 1, Fin 0] [Fin 0, Fin 0, Fin 0]
                    [Fin 0, Fin 0, Fin 0] [Fin 0, Fin 0, Fin 0]] \<and>
          effs' = effs"
    using interval_fold_permutation [OF h1 h2 h3 h4 h5, of example_argv] procs start
    by (simp add: totals ca cb cnt handed del: interval_reports.simps)
  then show ?thesis
    using h1 h2 h3 h4 h5 procs start ca cb by blast
qed

subsection \<open>Runs\<close>

lemma run_ended: "exit_code st \<noteq> None \<Longrightarrow> run a st evs = Inr (st, [])"
  by (cases evs) simp_all

lemma run_append:
  "run a st (xs @ ys) =
     (case run a st xs of
        Inl e \<Rightarrow> Inl e
      | Inr (st1, e1) \<Rightarrow>
          (case run a st1 ys of
             Inl e \<Rightarrow> Inl e
           | Inr (st2, e2) \<Rightarrow> Inr (st2, e1 @ e2)))"
proof (induction xs arbitrary: st)
  case Nil
  show ?case by (simp split: sum.splits prod.splits)
next
  case (Cons x xs)
  show ?case
  proof (cases "exit_code st = None")
    case True
    then show ?thesis
      by (simp add: Cons.IH split: sum.splits prod.splits)
  next
    case False
    then show ?thesis
      using run_ended [of st a ys] by auto
  qed
qed

lemma sent_to_append: "sent_to w (xs @ ys) = sent_to w xs @ sent_to w ys"
  by (induction w xs rule: sent_to.induct) simp_all

subsection \<open>Completion reports\<close>

lemma completion_report_continue:
  assumes "time a = None" and "iterations a = Some n" and "iteration st w < n"
  shows "worker_results_iteration a st w p =
           (st\<lparr>iteration := (iteration st)(w := iteration st w + 1)\<rparr>,
            [Stats_iteration p,
             Send w (Run \<lparr>ro_namespace = namespace a, ro_set = set_name a,
                           ro_keyRange = keyRange a, rops = ROPS st, wops = WOPS st,
                           ro_binSpec = binSpec a\<rparr>)])"
  using assms by (simp add: worker_results_iteration_def rwWorkerJob_def)

lemma completion_report_stop:
  assumes "time a = None" and "iterations a = Some n" and "\<not> iteration st w < n"
  shows "worker_results_iteration a st w p = (st, [Stats_iteration p, Send w End])"
  using assms by (simp add: worker_results_iteration_def worker_exit_def)

lemma completion_reports_below_limit:
  assumes "time a = None" and "iterations a = Some n" and "exit_code st = None"
    and "iteration st w + int (length ps) \<le> n"
  shows "run a st (map (\<lambda>p. Message w (''stats'', p)) ps) =
           Inr (st\<lparr>iteration := (iteration st)(w := iteration st w + int (length ps))\<rparr>,
                concat (map (\<lambda>p. [Stats_iteration p,
                  Send w (Run \<lparr>ro_namespace = namespace a, ro_set = set_name a,
                                ro_keyRange = keyRange a, rops = ROPS st, wops = WOPS st,
                                ro_binSpec = binSpec a\<rparr>)]) ps))"
  using assms(3,4)
proof (induction ps arbitrary: st)
  case Nil
  show ?case by simp
next
  case (Cons p ps)
  let ?st1 = "st\<lparr>iteration := (iteration st)(w := iteration st w + 1)\<rparr>"
  have below: "iteration st w < n"
    using Cons.prems(2) by simp
  have going: "exit_code ?st1 = None"
    using Cons.prems(1) by simp
  have room: "iteration ?st1 w + int (length ps) \<le> n"
    using Cons.prems(2) by simp
  show ?case
    using Cons.prems(1) Cons.IH [OF going room]
    by (simp add: worker_results_def completion_report_continue [OF assms(1,2) below]
          add.assoc cong: if_cong)
qed

lemma setup_time_without_duration: "time a = None \<Longrightarrow> setup_time a = a"
  by (simp add: setup_time_def)

text \<open>
  C4: without a duration and with an iteration limit, a completion report of a worker whose
  iteration counter is below the limit is answered with a new \<open>run\<close> job (and the counter
  goes up by one); a completion report at or past the limit is answered with one \<open>end\<close>
  signal and no job. So a read/write worker that has its first job (counter 1) and reports
  each of its jobs once gets a new job for each report but the last and exactly one \<open>end\<close>
  after the report that finds the counter at the limit.
\<close>

theorem iteration_limit:
  assumes "time a = None" and "iterations a = Some n" and "exit_code st = None"
    and "job = \<lparr>ro_namespace = namespace a, ro_set = set_name a, ro_keyRange = keyRange a,
               rops = ROPS st, wops = WOPS st, ro_binSpec = binSpec a\<rparr>"
  shows "(iteration st w < n \<longrightarrow>
            worker_results_iteration a st w p =
              (st\<lparr>iteration := (iteration st)(w := iteration st w + 1)\<rparr>,
               [Stats_iteration p, Send w (Run job)]))
       \<and> (\<not> iteration st w < n \<longrightarrow>
            worker_results_iteration a st w p = (st, [Stats_iteration p, Send w End]))
       \<and> (iteration st w = 1 \<and> int (length ps) = n \<and> ps \<noteq> [] \<longrightarrow>
            (\<exists>st' effs.
               run a st (map (\<lambda>p. Message w (''stats'', p)) ps) = Inr (st', effs) \<and>
               iteration st' w = n \<and>
               sent_to w effs = replicate (length ps - 1) (Run job) @ [End]))"
proof (intro conjI impI)
  assume "iteration st w < n"
  then show "worker_results_iteration a st w p =
               (st\<lparr>iteration := (iteration st)(w := iteration st w + 1)\<rparr>,
                [Stats_iteration p, Send w (Run job)])"
    by (simp add: completion_report_continue [OF assms(1,2)] assms(4))
next
  assume "\<not> iteration st w < n"
  then show "worker_results_iteration a st w p = (st, [Stats_iteration p, Send w End])"
    by (rule completion_report_stop [OF assms(1,2)])
next
  assume limit: "iteration st w = 1 \<and> int (length ps) = n \<and> ps \<noteq> []"
  then obtain qs q where ps: "ps = qs @ [q]"
    by (metis rev_exhaust)
  let ?st1 = "st\<lparr>iteration := (iteration st)(w := iteration st w + int (length qs))\<rparr>"
  have room: "iteration st w + int (length qs) \<le> n"
    using limit ps by simp
  have first: "run a st (map (\<lambda>p. Message w (''stats'', p)) qs) =
                 Inr (?st1, concat (map (\<lambda>p. [Stats_iteration p, Send w (Run job)]) qs))"
    using completion_reports_below_limit [OF assms(1,2,3) room] by (simp add: assms(4))
  have reached: "\<not> iteration ?st1 w < n"
    using limit ps by simp
  have last: "run a ?st1 [Message w (''stats'', q)] =
                Inr (?st1, [Stats_iteration q, Send w End])"
    using assms(3) by (simp add: worker_results_def completion_report_stop [OF assms(1,2) reached])
  have sent: "sent_to w (concat (map (\<lambda>p. [Stats_iteration p, Send w (Run job)]) qs)) =
                replicate (length qs) (Run job)"
    by (induction qs) simp_all
  have "run a st (map (\<lambda>p. Message w (''stats'', p)) ps) =
          Inr (?st1, concat (map (\<lambda>p. [Stats_iteration p, Send w (Run job)]) qs) @
                      [Stats_iteration q, Send w End])"
    by (simp add: ps run_append first last del: run.simps)
  moreover have "iteration ?st1 w = n"
    using limit ps by simp
  moreover have "sent_to w (concat (map (\<lambda>p. [Stats_iteration p, Send w (Run job)]) qs) @
                   [Stats_iteration q, Send w End]) =
                 replicate (length ps - 1) (Run job) @ [End]"
    by (simp add: sent_to_append sent ps)
  ultimately show "\<exists>st' effs.
      run a st (map (\<lambda>p. Message w (''stats'', p)) ps) = Inr (st', effs) \<and>
      iteration st' w = n \<and>
      sent_to w effs = replicate (length ps - 1) (Run job) @ [End]"
    by blast
qed

theorem iteration_limit_witness:
  "time example_argv = None \<and> iterations example_argv = Some 2 \<and>
   exit_code first_job_state = None \<and> exit_code second_job_state = None \<and>
   iteration first_job_state 1 < 2 \<and>
   worker_results_iteration example_argv first_job_state 1 Undefined =
     (first_job_state\<lparr>iteration := (iteration first_job_state)(1 := iteration first_job_state 1 + 1)\<rparr>,
      [Stats_iteration Undefined, Send 1 (Run example_job)]) \<and>
   \<not> iteration second_job_state 1 < 2 \<and>
   worker_results_iteration example_argv second_job_state 1 Undefined =
     (second_job_state, [Stats_iteration Undefined, Send 1 End]) \<and>
   iteration first_job_state 1 = 1 \<and>
   (\<exists>st' effs.
      run example_argv first_job_state
        (map (\<lambda>p. Message 1 (''stats'', p)) [Undefined, Undefined]) = Inr (st', effs) \<and>
      iteration st' 1 = 2 \<and>
      sent_to 1 effs = [Run example_job, End])"
proof -
  have h1: "time example_argv = None" and h2: "iterations example_argv = Some 2"
    by (simp_all add: example_argv_def)
  have h3: "exit_code first_job_state = None"
    by (simp add: first_job_state_def rwWorkerJob_def globals_def Let_def
          reset_interval_stats_def)
  have h3': "exit_code second_job_state = None"
    by (simp add: second_job_state_def rwWorkerJob_def h3)
  have it1: "iteration first_job_state 1 = 1"
    by (simp add: first_job_state_def rwWorkerJob_def globals_def Let_def
          reset_interval_stats_def)
  have it2: "iteration second_job_state 1 = 2"
    using it1 by (simp add: second_job_state_def rwWorkerJob_def)
  have mix1: "ROPS first_job_state = ROPS (globals example_argv)"
    "WOPS first_job_state = WOPS (globals example_argv)"
    by (simp_all add: first_job_state_def rwWorkerJob_def)
  have mix2: "ROPS second_job_state = ROPS (globals example_argv)"
    "WOPS second_job_state = WOPS (globals example_argv)"
    by (simp_all add: second_job_state_def rwWorkerJob_def mix1)
  have j1: "example_job =
              \<lparr>ro_namespace = namespace example_argv, ro_set = set_name example_argv,
               ro_keyRange = keyRange example_argv, rops = ROPS first_job_state,
               wops = WOPS first_job_state, ro_binSpec = binSpec example_argv\<rparr>"
    by (simp add: example_job_def mix1) (simp add: example_argv_def)
  have j2: "example_job =
              \<lparr>ro_namespace = namespace example_argv, ro_set = set_name example_argv,
               ro_keyRange = keyRange example_argv, rops = ROPS second_job_state,
               wops = WOPS second_job_state, ro_binSpec = binSpec example_argv\<rparr>"
    by (simp add: example_job_def mix2) (simp add: example_argv_def)
  have below: "iteration first_job_state 1 < 2"
    using it1 by simp
  have reached: "\<not> iteration second_job_state 1 < 2"
    using it2 by simp
  have len: "iteration first_job_state 1 = 1 \<and>
             int (length [Undefined, Undefined]) = 2 \<and> [Undefined, Undefined] \<noteq> []"
    using it1 by simp
  note first = iteration_limit [OF h1 h2 h3 j1, of 1 Undefined "[Undefined, Undefined]"]
  note second = iteration_limit [OF h1 h2 h3' j2, of 1 Undefined "[]"]
  have c1: "worker_results_iteration example_argv first_job_state 1 Undefined =
              (first_job_state\<lparr>iteration :=
                 (iteration first_job_state)(1 := iteration first_job_state 1 + 1)\<rparr>,
               [Stats_iteration Undefined, Send 1 (Run example_job)])"
    using first below by blast
  have c2: "worker_results_iteration example_argv second_job_state 1 Undefined =
              (second_job_state, [Stats_iteration Undefined, Send 1 End])"
    using second reached by blast
  have c3: "\<exists>st' effs.
      run example_argv first_job_state
        (map (\<lambda>p. Message 1 (''stats'', p)) [Undefined, Undefined]) = Inr (st', effs) \<and>
      iteration st' 1 = 2 \<and>
      sent_to 1 effs = replicate (length [Undefined, Undefined] - 1) (Run example_job) @ [End]"
    using first len by blast
  have c3': "replicate (length [Undefined, Undefined] - 1) (Run example_job) @ [End] =
             [Run example_job, End]"
    by simp
  show ?thesis
    using h1 h2 h3 h3' below c1 reached c2 it1 c3 unfolding c3' by blast
qed

subsection \<open>Worker exits\<close>

lemma worker_fault_exit:
  assumes "exit_code st = None" and "code \<noteq> Some 0"
  shows "\<exists>st' effs. run a st (Exited w code # evs) = Inr (st', effs @ [Process_exit 1]) \<and>
           exit_code st' = Some 1 \<and> sent_to w' effs = []"
proof -
  let ?st0 = "st\<lparr>workers := removeAll w (workers st)\<rparr>"
  let ?st1 = "?st0\<lparr>exit_code := Some 1\<rparr>"
  let ?effs = "Log (Log_worker_exited w code) #
               (if exited ?st0 = online ?st0 then finalize a ?st0 else [])"
  have step: "cluster_exit a ?st0 w code = (?st1, ?effs @ [Process_exit 1])"
    using assms(2) by (simp add: cluster_exit_def process_exit_def)
  have "run a ?st1 evs = Inr (?st1, [])"
    by (rule run_ended) simp
  then have "run a st (Exited w code # evs) = Inr (?st1, ?effs @ [Process_exit 1])"
    using assms(1) step by simp
  moreover have "sent_to w' ?effs = []"
    by (simp add: finalize_def)
  moreover have "exit_code ?st1 = Some 1"
    by simp
  ultimately show ?thesis
    by blast
qed

lemma all_workers_exit:
  assumes "exit_code st = None" and "ws \<noteq> []"
    and "exited st + int (length ws) = online st"
  shows "\<exists>st' effs. run a st (map (\<lambda>w. Exited w (Some 0)) ws) =
                       Inr (st', effs @ [Process_exit 0]) \<and>
                     exit_code st' = Some 0 \<and> exited st' = online st"
  using assms
proof (induction ws arbitrary: st)
  case Nil
  then show ?case by simp
next
  case (Cons w ws)
  let ?st0 = "st\<lparr>workers := removeAll w (workers st)\<rparr>"
  let ?st1 = "?st0\<lparr>exited := exited st + 1\<rparr>"
  show ?case
  proof (cases "ws = []")
    case True
    then have all: "exited ?st1 = online ?st1"
      using Cons.prems(3) by simp
    have "cluster_exit a ?st0 w (Some 0) =
            (?st1\<lparr>exit_code := Some 0\<rparr>, finalize a ?st1 @ [Process_exit 0])"
      using all by (simp add: cluster_exit_def process_exit_def Let_def)
    then have "run a st (map (\<lambda>w. Exited w (Some 0)) (w # ws)) =
                 Inr (?st1\<lparr>exit_code := Some 0\<rparr>, finalize a ?st1 @ [Process_exit 0])"
      using Cons.prems(1) True by simp
    moreover have "exit_code (?st1\<lparr>exit_code := Some 0\<rparr>) = Some 0"
      by simp
    moreover have "exited (?st1\<lparr>exit_code := Some 0\<rparr>) = online st"
      using all by simp
    ultimately show ?thesis by blast
  next
    case False
    then have more: "exited ?st1 \<noteq> online ?st1"
      using Cons.prems(3) by (cases ws) simp_all
    have step: "cluster_exit a ?st0 w (Some 0) = (?st1, [])"
      using more by (simp add: cluster_exit_def Let_def)
    have going: "exit_code ?st1 = None"
      using Cons.prems(1) by simp
    have rest: "exited ?st1 + int (length ws) = online ?st1"
      using Cons.prems(3) by simp
    obtain st' effs where
      tail: "run a ?st1 (map (\<lambda>w. Exited w (Some 0)) ws) = Inr (st', effs @ [Process_exit 0])"
      and ended: "exit_code st' = Some 0" "exited st' = online ?st1"
      using Cons.IH [OF going False rest] by blast
    have "run a st (map (\<lambda>w. Exited w (Some 0)) (w # ws)) = Inr (st', effs @ [Process_exit 0])"
      using Cons.prems(1) step tail by simp
    then show ?thesis
      using ended by auto
  qed
qed

text \<open>
  C3: the controller ends with status 1 as soon as a worker exits with a status other than 0
  (nothing is sent to any worker any more, later events are not handled), and it ends with
  status 0 when workers exit with status 0 until as many have exited as have come online.
\<close>

theorem controller_exit_status:
  assumes "exit_code st = None"
  shows "(code \<noteq> Some 0 \<longrightarrow>
            (\<exists>st' effs. run a st (Exited w code # evs) = Inr (st', effs @ [Process_exit 1]) \<and>
               exit_code st' = Some 1 \<and> sent_to w' effs = []))
       \<and> (ws \<noteq> [] \<and> exited st + int (length ws) = online st \<longrightarrow>
            (\<exists>st' effs. run a st (map (\<lambda>w. Exited w (Some 0)) ws) =
                           Inr (st', effs @ [Process_exit 0]) \<and>
               exit_code st' = Some 0 \<and> exited st' = online st))"
  using worker_fault_exit [OF assms] all_workers_exit [OF assms] by blast

theorem controller_exit_status_witness:
  "exit_code two_online_state = None \<and> Some 3 \<noteq> Some (0::int) \<and>
   (\<exists>st' effs. run example_argv two_online_state [Exited 1 (Some 3), Online 2] =
                  Inr (st', effs @ [Process_exit 1]) \<and>
      exit_code st' = Some 1 \<and> sent_to 2 effs = []) \<and>
   [1, 2] \<noteq> ([]::nat list) \<and>
   exited two_online_state + int (length [1::nat, 2]) = online two_online_state \<and>
   (\<exists>st' effs. run example_argv two_online_state (map (\<lambda>w. Exited w (Some 0)) [1, 2]) =
                  Inr (st', effs @ [Process_exit 0]) \<and>
      exit_code st' = Some 0 \<and> exited st' = online two_online_state)"
proof -
  have h: "exit_code two_online_state = None"
    by (simp add: two_online_state_def globals_def Let_def reset_interval_stats_def)
  have fault: "Some 3 \<noteq> Some (0::int)"
    by simp
  have all: "[1, 2] \<noteq> ([]::nat list) \<and>
             exited two_online_state + int (length [1::nat, 2]) = online two_online_state"
    by (simp add: two_online_state_def globals_def Let_def reset_interval_stats_def)
  note inst = controller_exit_status [OF h, of "Some 3" example_argv 1 "[Online 2]" 2 "[1, 2]"]
  show ?thesis
    using h fault all inst by blast
qed

subsection \<open>Start\<close>

lemma upt_add_Suc: "[n..<Suc (n + m)] = n # [Suc n..<Suc (n + m)]"
  by (simp add: upt_conv_Cons del: upt_Suc)

lemma spawn_loop_frame:
  "\<exists>it. spawn_loop a st p =
          (st\<lparr>workers := workers st @ [next_id st..<next_id st + nat (processes a - p)],
               iteration := it,
               next_id := next_id st + nat (processes a - p)\<rparr>,
           map Fork [next_id st..<next_id st + nat (processes a - p)])"
proof (induction a st p rule: spawn_loop.induct)
  case (1 a st p)
  show ?case
  proof (cases "p < processes a")
    case False
    then have "spawn_loop a st p = (st, [])"
      by (subst spawn_loop.simps) simp
    moreover have "nat (processes a - p) = 0"
      using False by simp
    ultimately show ?thesis
      by (intro exI [of _ "iteration st"]) simp
  next
    case True
    let ?st1 = "st\<lparr>workers := workers st @ [next_id st],
                     iteration := (iteration st)(next_id st := 0),
                     next_id := next_id st + 1\<rparr>"
    have spawn: "worker_spawn st = (?st1, [Fork (next_id st)])"
      by (simp add: worker_spawn_def Let_def)
    have n: "nat (processes a - p) = Suc (nat (processes a - (p + 1)))"
      using True by simp
    obtain it where rest:
      "spawn_loop a ?st1 (p + 1) =
         (?st1\<lparr>workers := workers ?st1 @
                    [next_id ?st1..<next_id ?st1 + nat (processes a - (p + 1))],
               iteration := it,
               next_id := next_id ?st1 + nat (processes a - (p + 1))\<rparr>,
          map Fork [next_id ?st1..<next_id ?st1 + nat (processes a - (p + 1))])"
      using "1.IH" [OF True spawn [symmetric]] by blast
    have unfold: "spawn_loop a st p =
            (case spawn_loop a ?st1 (p + 1) of (st2, rest) \<Rightarrow> (st2, [Fork (next_id st)] @ rest))"
      using True by (subst spawn_loop.simps) (simp only: spawn if_True prod.case)
    have "spawn_loop a st p =
            (?st1\<lparr>workers := workers ?st1 @
                       [next_id ?st1..<next_id ?st1 + nat (processes a - (p + 1))],
                  iteration := it,
                  next_id := next_id ?st1 + nat (processes a - (p + 1))\<rparr>,
             [Fork (next_id st)] @
             map Fork [next_id ?st1..<next_id ?st1 + nat (processes a - (p + 1))])"
      by (simp only: unfold rest prod.case)
    then show ?thesis
      by (intro exI [of _ it]) (simp add: n upt_add_Suc del: upt_Suc)
  qed
qed

lemma startup_master:
  assumes "keyRange a = Some kr"
  shows "\<exists>it. startup a True =
           Inr ((globals a)\<lparr>workers := [1..<1 + nat (processes a)], iteration := it,
                            next_id := 1 + nat (processes a)\<rparr>,
                [Setup_alert_system] @ (if \<not> silent a then [Log Log_config] else []) @
                [Set_interval 1000] @
                (case time a of None \<Rightarrow> [] | Some t \<Rightarrow> [Set_timeout (t * 1000)]) @
                [Stats_start] @ map Fork [1..<1 + nat (processes a)])"
proof -
  have g: "workers (globals a) = []" "next_id (globals a) = 1"
    by (simp_all add: globals_def Let_def reset_interval_stats_def)
  obtain it where
    "spawn_loop a (globals a) 0 =
       ((globals a)\<lparr>workers := workers (globals a) @
                       [next_id (globals a)..<next_id (globals a) + nat (processes a - 0)],
                     iteration := it,
                     next_id := next_id (globals a) + nat (processes a - 0)\<rparr>,
        map Fork [next_id (globals a)..<next_id (globals a) + nat (processes a - 0)])"
    using spawn_loop_frame [of a "globals a" 0] by blast
  then show ?thesis
    using assms by (intro exI [of _ it]) (simp add: startup_def g)
qed

subsection \<open>Role assignment\<close>

lemma online_inv_start:
  "online_inv a (globals a) 0
     ((globals a)\<lparr>workers := ws, iteration := it, next_id := n\<rparr>)"
  by (simp add: online_inv_def globals_def Let_def reset_interval_stats_def query_slots_def
        scan_slots_def split: option.splits)

lemma queryWorkerJob_in_range:
  "querySpec a = Some qs \<Longrightarrow> i < length qs \<Longrightarrow> \<exists>sent. queryWorkerJob a w (int i) = Inr sent"
  by (simp add: queryWorkerJob_def Let_def)

lemma cluster_online_role:
  assumes "online_inv a st0 k st"
  shows "\<exists>st'. cluster_online a st w =
                  Inr (st', role_job a st0 w
                         (spec_role (rw_slots a) (query_slots a) (scan_slots a) k)) \<and>
               online_inv a st0 (Suc k) st'"
proof -
  let ?r = "rw_slots a" and ?q = "query_slots a" and ?s = "scan_slots a"
  have inv: "exit_code st = None" "ROPS st = ROPS st0" "WOPS st = WOPS st0"
    "queryWorkers st = int ?q" "scanWorkers st = int ?s"
    "rwWorkers st = processes a - int ?q - int ?s"
    "rwOnline st = int (min k ?r)" "queryOnline st = int (min (k - ?r) ?q)"
    "scanOnline st = int (min (k - ?r - ?q) ?s)"
    using assms by (simp_all add: online_inv_def)
  consider (rw) "k < ?r" | (query) "?r \<le> k" "k < ?r + ?q"
    | (scan) "?r + ?q \<le> k" "k < ?r + ?q + ?s" | (none) "?r + ?q + ?s \<le> k"
    by linarith
  then show ?thesis
  proof cases
    case rw
    then have free: "rwOnline st < rwWorkers st"
      using inv(6,7) by (simp add: rw_slots_def)
    show ?thesis
      using rw free inv
      by (simp add: cluster_online_def Let_def rwWorkerJob_def spec_role_def online_inv_def)
  next
    case query
    then have full: "\<not> rwOnline st < rwWorkers st"
      using inv(6,7) by (simp add: rw_slots_def)
    have free: "queryOnline st < queryWorkers st"
      using query inv(4,8) by simp
    obtain qs where qs: "querySpec a = Some qs" "length qs = ?q"
      using query by (cases "querySpec a") (simp_all add: query_slots_def)
    have idx: "queryOnline st = int (k - ?r)"
      using query inv(8) by simp
    have "k - ?r < length qs"
      using query qs by simp
    then obtain sent where job: "queryWorkerJob a w (int (k - ?r)) = Inr sent"
      using queryWorkerJob_in_range [OF qs(1)] by blast
    show ?thesis
      using query full free inv idx job
      by (simp add: cluster_online_def Let_def spec_role_def online_inv_def)
  next
    case scan
    then have full: "\<not> rwOnline st < rwWorkers st"
      using inv(6,7) by (simp add: rw_slots_def)
    have full': "\<not> queryOnline st < queryWorkers st"
      using scan inv(4,8) by simp
    have free: "scanOnline st < scanWorkers st"
      using scan inv(5,9) by simp
    show ?thesis
      using scan full full' free inv
      by (simp add: cluster_online_def Let_def spec_role_def online_inv_def)
  next
    case none
    then have full: "\<not> rwOnline st < rwWorkers st"
      using inv(6,7) by (simp add: rw_slots_def)
    have full': "\<not> queryOnline st < queryWorkers st"
      using none inv(4,8) by simp
    have full'': "\<not> scanOnline st < scanWorkers st"
      using none inv(5,9) by simp
    show ?thesis
      using none full full' full'' inv
      by (simp add: cluster_online_def Let_def spec_role_def online_inv_def)
  qed
qed

lemma onlines_roles:
  assumes "online_inv a st0 k st"
  shows "\<exists>st'. run a st (map Online ws) =
                  Inr (st', concat (map2 (\<lambda>k w. role_job a st0 w
                         (spec_role (rw_slots a) (query_slots a) (scan_slots a) k))
                         [k..<k + length ws] ws)) \<and>
               online_inv a st0 (k + length ws) st'"
  using assms
proof (induction ws arbitrary: k st)
  case Nil
  then show ?case by simp
next
  case (Cons w ws)
  obtain st1 where
    step: "cluster_online a st w =
             Inr (st1, role_job a st0 w
                    (spec_role (rw_slots a) (query_slots a) (scan_slots a) k))"
    and inv1: "online_inv a st0 (Suc k) st1"
    using cluster_online_role [OF Cons.prems] by blast
  obtain st' where
    rest: "run a st1 (map Online ws) =
             Inr (st', concat (map2 (\<lambda>k w. role_job a st0 w
                    (spec_role (rw_slots a) (query_slots a) (scan_slots a) k))
                    [Suc k..<Suc k + length ws] ws))"
    and inv': "online_inv a st0 (Suc k + length ws) st'"
    using Cons.IH [OF inv1] by blast
  have going: "exit_code st = None"
    using Cons.prems by (simp add: online_inv_def)
  have "run a st (map Online (w # ws)) =
          Inr (st', concat (map2 (\<lambda>k w. role_job a st0 w
                 (spec_role (rw_slots a) (query_slots a) (scan_slots a) k))
                 [k..<k + length (w # ws)] (w # ws)))"
    using going step rest by (simp add: upt_add_Suc del: upt_Suc)
  then show ?case
    using inv' by auto
qed

lemma upt_five: "[0..<5] = [0, 1, 2, 3, 4]"
  by (simp add: upt_conv_Cons del: upt_Suc)

text \<open>
  C5: roles are given in the order in which the workers come online, each worker once: from
  the start of the controller, the \<open>k\<close>-th \<open>online\<close> event (counted from 0) sends its worker
  the job of the role that the priority order of the specification gives position \<open>k\<close>: a
  read/write job for the first \<open>rw_slots\<close> workers, then the query job of each query
  specification in list order, then the scan job for \<open>scan_slots\<close> workers, and nothing for
  any later worker.
\<close>

theorem roles_in_priority_order:
  assumes "keyRange a = Some kr"
  shows "\<exists>st st' effs0.
           startup a True = Inr (st, effs0) \<and>
           controller a True (map Online ws) =
             Inr (st', effs0 @
                  concat (map2 (\<lambda>k w. role_job a st w
                            (spec_role (rw_slots a) (query_slots a) (scan_slots a) k))
                          [0..<length ws] ws))"
proof -
  obtain it where start:
    "startup a True =
       Inr ((globals a)\<lparr>workers := [1..<1 + nat (processes a)], iteration := it,
                        next_id := 1 + nat (processes a)\<rparr>,
            [Setup_alert_system] @ (if \<not> silent a then [Log Log_config] else []) @
            [Set_interval 1000] @
            (case time a of None \<Rightarrow> [] | Some t \<Rightarrow> [Set_timeout (t * 1000)]) @
            [Stats_start] @ map Fork [1..<1 + nat (processes a)])"
    using startup_master [OF assms] by blast
  let ?st = "(globals a)\<lparr>workers := [1..<1 + nat (processes a)], iteration := it,
                           next_id := 1 + nat (processes a)\<rparr>"
  let ?a = "setup_time a"
  have slots: "rw_slots ?a = rw_slots a" "query_slots ?a = query_slots a"
    "scan_slots ?a = scan_slots a"
    by (simp_all add: setup_time_def rw_slots_def query_slots_def scan_slots_def)
  have "online_inv a (globals a) 0 ?st"
    by (rule online_inv_start)
  then have inv: "online_inv ?a (globals a) 0 ?st"
    by (simp add: online_inv_def slots) (simp add: setup_time_def)
  have fields: "namespace ?a = namespace a" "set_name ?a = set_name a"
    "keyRange ?a = keyRange a" "binSpec ?a = binSpec a" "querySpec ?a = querySpec a"
    "scanSpec ?a = scanSpec a"
    by (simp_all add: setup_time_def)
  have same: "role_job ?a (globals a) w r = role_job a ?st w r" for w r
  proof (cases r)
    case None
    then show ?thesis by simp
  next
    case (Some ro)
    then show ?thesis
      by (cases ro)
         (simp_all add: rwWorkerJob_def queryWorkerJob_def scanWorkerJob_def fields Let_def
            split: option.splits)
  qed
  obtain st' where
    "run ?a ?st (map Online ws) =
       Inr (st', concat (map2 (\<lambda>k w. role_job a ?st w
              (spec_role (rw_slots a) (query_slots a) (scan_slots a) k))
              [0..<length ws] ws))"
    using onlines_roles [OF inv, of ws] by (auto simp: same slots)
  then show ?thesis
    using start by (simp add: controller_def del: run.simps)
qed

theorem roles_in_priority_order_witness:
  "keyRange roles_argv = Some (0, 1000) \<and>
   (\<exists>st st' effs0.
      startup roles_argv True = Inr (st, effs0) \<and>
      controller roles_argv True (map Online [11, 12, 13, 14, 15]) =
        Inr (st', effs0 @
          [Send 11 (Run \<lparr>ro_namespace = JStr ''test'', ro_set = JStr ''demo'',
                          ro_keyRange = Some (0, 1000), rops = ROPS st, wops = WOPS st,
                          ro_binSpec = JUndefined\<rparr>),
           Send 12 (Query \<lparr>qo_namespace = JStr ''test'', qo_set = JStr ''demo'',
              qo_statement = Stmt (Some [Filter_range (JStr ''age'') (JInt 18) (JInt 65)])\<rparr>),
           Send 13 (Query \<lparr>qo_namespace = JStr ''test'', qo_set = JStr ''demo'',
              qo_statement = Stmt (Some [Filter_equal (JStr ''name'') (JStr ''x'')])\<rparr>),
           Send 14 (Query \<lparr>qo_namespace = JStr ''test'', qo_set = JStr ''demo'',
              qo_statement = Scan_statement (Some [JStr ''all''])\<rparr>)]))"
proof -
  have kr: "keyRange roles_argv = Some (0, 1000)"
    by (simp add: roles_argv_def example_argv_def)
  have slots: "rw_slots roles_argv = 1" "query_slots roles_argv = 2" "scan_slots roles_argv = 1"
    by (simp_all add: rw_slots_def query_slots_def scan_slots_def roles_argv_def
          example_argv_def)
  have fields: "namespace roles_argv = JStr ''test''" "set_name roles_argv = JStr ''demo''"
    "keyRange roles_argv = Some (0, 1000)" "binSpec roles_argv = JUndefined"
    "querySpec roles_argv = Some [range_query, equal_query]"
    "scanSpec roles_argv = Some [JStr ''all'']"
    by (simp_all add: roles_argv_def example_argv_def)
  obtain st st' effs0 where
    start: "startup roles_argv True = Inr (st, effs0)" and
    ran: "controller roles_argv True (map Online [11, 12, 13, 14, 15]) =
       Inr (st', effs0 @ concat (map2 (\<lambda>k w. role_job roles_argv st w
              (spec_role (rw_slots roles_argv) (query_slots roles_argv)
                 (scan_slots roles_argv) k))
              [0..<length [11, 12, 13, 14, 15::nat]] [11, 12, 13, 14, 15]))"
    using roles_in_priority_order [OF kr, of "[11, 12, 13, 14, 15]"] by blast
  have "concat (map2 (\<lambda>k w. role_job roles_argv st w
              (spec_role (rw_slots roles_argv) (query_slots roles_argv)
                 (scan_slots roles_argv) k))
              [0..<length [11, 12, 13, 14, 15::nat]] [11, 12, 13, 14, 15]) =
          [Send 11 (Run \<lparr>ro_namespace = JStr ''test'', ro_set = JStr ''demo'',
                          ro_keyRange = Some (0, 1000), rops = ROPS st, wops = WOPS st,
                          ro_binSpec = JUndefined\<rparr>),
           Send 12 (Query \<lparr>qo_namespace = JStr ''test'', qo_set = JStr ''demo'',
              qo_statement = Stmt (Some [Filter_range (JStr ''age'') (JInt 18) (JInt 65)])\<rparr>),
           Send 13 (Query \<lparr>qo_namespace = JStr ''test'', qo_set = JStr ''demo'',
              qo_statement = Stmt (Some [Filter_equal (JStr ''name'') (JStr ''x'')])\<rparr>),
           Send 14 (Query \<lparr>qo_namespace = JStr ''test'', qo_set = JStr ''demo'',
              qo_statement = Scan_statement (Some [JStr ''all''])\<rparr>)]"
    by (simp add: slots upt_five spec_role_def rwWorkerJob_def queryWorkerJob_def
          scanWorkerJob_def fields range_query_def equal_query_def)
  then show ?thesis
    using kr start ran by auto
qed

subsection \<open>Query jobs are sent by the handler of online only\<close>

lemma queryWorkerJob_sent:
  "queryWorkerJob a w' i = Inr sent \<Longrightarrow> \<exists>options. sent = [Send w' (Query options)]"
  by (auto simp: queryWorkerJob_def Let_def split: option.splits if_splits)

lemma no_query_probe: "filter is_query (sent_to w (map (\<lambda>ident. Send ident Trans) ws)) = []"
  by (induction ws) simp_all

lemma no_query_shutdown: "filter is_query (sent_to w (concat (map worker_exit ws))) = []"
  by (induction ws) (simp_all add: worker_exit_def)

lemma no_query_flush: "sent_to w (flush a st) = []"
  by (simp add: flush_def print_interval_stats_def sent_to_append)

lemma online_query_bound:
  assumes "cluster_online a st w' = Inr (st', effs)"
  shows "length (filter is_query (sent_to w effs)) \<le> (if w' = w then 1 else 0)"
proof -
  consider (rw) "effs = snd (rwWorkerJob a (st\<lparr>online := online st + 1,
                       rwOnline := rwOnline st + 1\<rparr>) w')"
    | (query) sent where "queryWorkerJob a w' (queryOnline st) = Inr sent" "effs = sent"
    | (scan) "effs = scanWorkerJob a w'" | (none) "effs = []"
    using assms
    by (auto simp: cluster_online_def Let_def split: if_splits sum.splits)
  then show ?thesis
  proof cases
    case rw
    then show ?thesis by (simp add: rwWorkerJob_def)
  next
    case query
    then show ?thesis using queryWorkerJob_sent [OF query(1)] by auto
  next
    case scan
    then show ?thesis by (simp add: scanWorkerJob_def)
  next
    case none
    then show ?thesis by simp
  qed
qed

lemma step_query_bound:
  assumes "step a st ev = Inr (st', effs)"
  shows "length (filter is_query (sent_to w effs)) \<le> (if ev = Online w then 1 else 0)"
proof (cases ev)
  case (Online w')
  then show ?thesis
    using assms online_query_bound [of a st w' st' effs w] by simp
next
  case (Exited w' code)
  then have "sent_to w effs = []"
    using assms
    by (auto simp: cluster_exit_def process_exit_def finalize_def Let_def sent_to_append
          split: if_splits)
  then show ?thesis by simp
next
  case (Message w' m)
  then have "filter is_query (sent_to w effs) = []"
    using assms
    by (auto simp: worker_results_def worker_results_iteration_def rwWorkerJob_def
          worker_exit_def worker_results_interval_def Let_def no_query_flush
          split: if_splits payload.splits sum.splits)
  then show ?thesis by simp
next
  case Tick
  then have "filter is_query (sent_to w effs) = []"
    using assms by (auto simp: tick_def worker_probe_def no_query_probe)
  then show ?thesis by simp
next
  case Duration_elapsed
  then have "filter is_query (sent_to w effs) = []"
    using assms
    by (auto simp: duration_elapsed_def worker_probe_def worker_shutdown_def sent_to_append
          no_query_probe no_query_shutdown split: if_splits)
  then show ?thesis by simp
qed

lemma run_query_bound:
  assumes "run a st evs = Inr (st', effs)"
  shows "length (filter is_query (sent_to w effs)) \<le> count_list evs (Online w)"
  using assms
proof (induction evs arbitrary: st st' effs)
  case Nil
  then show ?case by simp
next
  case (Cons ev evs)
  show ?case
  proof (cases "exit_code st = None")
    case False
    then show ?thesis
      using Cons.prems by simp
  next
    case True
    then obtain st1 e1 st2 e2 where
      first: "step a st ev = Inr (st1, e1)" and
      rest: "run a st1 evs = Inr (st2, e2)" and
      effs: "effs = e1 @ e2"
      using Cons.prems by (auto split: sum.splits prod.splits)
    show ?thesis
      using step_query_bound [OF first, of w] Cons.IH [OF rest]
      by (auto simp: effs sent_to_append)
  qed
qed

lemma queryWorkerJob_index: "queryWorkerJob a w i = Inr sent \<Longrightarrow> 0 \<le> i"
  by (auto simp: queryWorkerJob_def split: option.splits if_splits)

lemma online_assigns_query:
  assumes "cluster_online a st1 w = Inr (st2, e2)"
    and "\<not> rwOnline st1 < rwWorkers st1"
    and "queryOnline st1 < queryWorkers st1 \<or> scanOnline st1 < scanWorkers st1"
  shows "\<exists>options. e2 = [Send w (Query options)] \<and>
           role_job a st1 w
             (Some (if queryOnline st1 < queryWorkers st1
                    then Query_role (nat (queryOnline st1)) else Scan_role)) =
           [Send w (Query options)]"
proof (cases "queryOnline st1 < queryWorkers st1")
  case True
  then have job: "queryWorkerJob a w (queryOnline st1) = Inr e2"
    using assms(1,2) by (auto simp: cluster_online_def Let_def split: sum.splits)
  then have "int (nat (queryOnline st1)) = queryOnline st1"
    using queryWorkerJob_index by simp
  then have "role_job a st1 w (Some (Query_role (nat (queryOnline st1)))) = e2"
    using job by simp
  then show ?thesis
    using True queryWorkerJob_sent [OF job] by auto
next
  case False
  then have "e2 = scanWorkerJob a w"
    using assms by (auto simp: cluster_online_def Let_def)
  then show ?thesis
    using False by (simp add: scanWorkerJob_def)
qed

lemma run_query_none:
  assumes "run a st evs = Inr (st', effs)" and "Online w \<notin> set evs"
  shows "filter is_query (sent_to w effs) = []"
proof -
  have "count_list evs (Online w) = 0"
    using assms(2) by (simp add: count_list_0_iff)
  then show ?thesis
    using run_query_bound [OF assms(1), of w] by simp
qed

lemma query_worker_once:
  assumes "run a st (pre @ Online w # post) = Inr (st', effs)"
    and "Online w \<notin> set pre" and "Online w \<notin> set post"
    and "run a st pre = Inr (st1, e1)" and "exit_code st1 = None"
    and "\<not> rwOnline st1 < rwWorkers st1"
    and "queryOnline st1 < queryWorkers st1 \<or> scanOnline st1 < scanWorkers st1"
  shows "\<exists>options. filter is_query (sent_to w effs) = [Query options] \<and>
           role_job a st1 w
             (Some (if queryOnline st1 < queryWorkers st1
                    then Query_role (nat (queryOnline st1)) else Scan_role)) =
           [Send w (Query options)]"
proof -
  obtain e23 where rest: "run a st1 (Online w # post) = Inr (st', e23)"
    and effs: "effs = e1 @ e23"
    using assms(1,4) by (auto simp: run_append split: sum.splits prod.splits)
  obtain st2 e2 e3 where online: "cluster_online a st1 w = Inr (st2, e2)"
    and after: "run a st2 post = Inr (st', e3)" and e23: "e23 = e2 @ e3"
    using rest assms(5) by (auto split: sum.splits prod.splits)
  obtain options where job: "e2 = [Send w (Query options)]"
    and role: "role_job a st1 w
                 (Some (if queryOnline st1 < queryWorkers st1
                        then Query_role (nat (queryOnline st1)) else Scan_role)) =
               [Send w (Query options)]"
    using online_assigns_query [OF online assms(6,7)] by blast
  have "filter is_query (sent_to w e1) = []"
    by (rule run_query_none [OF assms(4,2)])
  moreover have "filter is_query (sent_to w e3) = []"
    by (rule run_query_none [OF after assms(3)])
  ultimately have "filter is_query (sent_to w effs) = [Query options]"
    by (simp add: effs e23 job sent_to_append)
  then show ?thesis
    using role by blast
qed

lemma completion_report_answer:
  "sent_to w (snd (worker_results_iteration a st w p)) =
     (if iterations a = None \<or> (\<exists>n. iterations a = Some n \<and> iteration st w < n)
         \<or> time a \<noteq> None
      then [Run \<lparr>ro_namespace = namespace a, ro_set = set_name a, ro_keyRange = keyRange a,
                 rops = ROPS st, wops = WOPS st, ro_binSpec = binSpec a\<rparr>]
      else [End])"
  by (auto simp: worker_results_iteration_def rwWorkerJob_def worker_exit_def
        split: option.splits)

text \<open>
  C7 as the specification states it: a query worker is never sent a further job, also not
  after a completion report. In the run below the only worker is a query worker (the first
  message it gets is its \<open>query\<close> job); when it sends a completion report, the controller
  answers with a \<open>run\<close> job, since \<open>worker_results_iteration\<close> does not look at the role.
\<close>

theorem query_worker_redriven_counterexample:
  "outcome (controller query_only_argv True [Online 1, Message 1 (''stats'', Undefined)]) =
     Inr ((zero_table, 0, [1], None),
          [Setup_alert_system, Set_interval 1000, Stats_start, Fork 1,
           Send 1 (Query \<lparr>qo_namespace = JStr ''test'', qo_set = JStr ''demo'',
              qo_statement = Stmt (Some [Filter_range (JStr ''age'') (JInt 18) (JInt 65)])\<rparr>),
           Stats_iteration Undefined,
           Send 1 (Run \<lparr>ro_namespace = JStr ''test'', ro_set = JStr ''demo'',
              ro_keyRange = Some (0, 1000), rops = Fin 700, wops = Fin 300,
              ro_binSpec = JUndefined\<rparr>)])"
  by code_simp

text \<open>
  C7, amended: a worker to which the handler of \<open>online\<close> gives a query or a scan role (when
  it comes online the read/write slots are full and a query or scan slot is free) and that
  comes online once is sent exactly one \<open>query\<close> job in the whole run, the job of its role,
  at role assignment; and in every run the \<open>query\<close> jobs sent to a worker are at most as many
  as its \<open>online\<close> events. The controller keeps no roles, however: a completion report of any
  worker, query and scan workers included, is answered with exactly one message to it, a
  \<open>run\<close> job when no iteration limit is set, or its counter is below the limit, or a duration
  is set, and the \<open>end\<close> signal otherwise.
\<close>

theorem query_job_only_when_online:
  assumes "run a st evs = Inr (st', effs)"
  shows "length (filter is_query (sent_to w effs)) \<le> count_list evs (Online w)
       \<and> (\<forall>pre post st1 e1.
             evs = pre @ Online w # post \<and> Online w \<notin> set pre \<and> Online w \<notin> set post \<and>
             run a st pre = Inr (st1, e1) \<and> exit_code st1 = None \<and>
             \<not> rwOnline st1 < rwWorkers st1 \<and>
             (queryOnline st1 < queryWorkers st1 \<or> scanOnline st1 < scanWorkers st1) \<longrightarrow>
             (\<exists>options. filter is_query (sent_to w effs) = [Query options] \<and>
                role_job a st1 w
                  (Some (if queryOnline st1 < queryWorkers st1
                         then Query_role (nat (queryOnline st1)) else Scan_role)) =
                [Send w (Query options)]))
       \<and> sent_to w (snd (worker_results_iteration a st w p)) =
           (if iterations a = None \<or> (\<exists>n. iterations a = Some n \<and> iteration st w < n)
               \<or> time a \<noteq> None
            then [Run \<lparr>ro_namespace = namespace a, ro_set = set_name a,
                       ro_keyRange = keyRange a, rops = ROPS st, wops = WOPS st,
                       ro_binSpec = binSpec a\<rparr>]
            else [End])"
proof (intro conjI allI impI)
  show "length (filter is_query (sent_to w effs)) \<le> count_list evs (Online w)"
    by (rule run_query_bound [OF assms])
next
  fix pre post st1 e1
  assume h: "evs = pre @ Online w # post \<and> Online w \<notin> set pre \<and> Online w \<notin> set post \<and>
             run a st pre = Inr (st1, e1) \<and> exit_code st1 = None \<and>
             \<not> rwOnline st1 < rwWorkers st1 \<and>
             (queryOnline st1 < queryWorkers st1 \<or> scanOnline st1 < scanWorkers st1)"
  then have whole: "run a st (pre @ Online w # post) = Inr (st', effs)"
    using assms by simp
  show "\<exists>options. filter is_query (sent_to w effs) = [Query options] \<and>
          role_job a st1 w
            (Some (if queryOnline st1 < queryWorkers st1
                   then Query_role (nat (queryOnline st1)) else Scan_role)) =
          [Send w (Query options)]"
    using query_worker_once [OF whole] h by blast
next
  show "sent_to w (snd (worker_results_iteration a st w p)) =
           (if iterations a = None \<or> (\<exists>n. iterations a = Some n \<and> iteration st w < n)
               \<or> time a \<noteq> None
            then [Run \<lparr>ro_namespace = namespace a, ro_set = set_name a,
                       ro_keyRange = keyRange a, rops = ROPS st, wops = WOPS st,
                       ro_binSpec = binSpec a\<rparr>]
            else [End])"
    by (rule completion_report_answer)
qed

theorem query_job_only_when_online_witness:
  "(\<exists>st'. run query_only_argv (globals query_only_argv)
             [Online 1, Message 1 (''stats'', Undefined)] =
           Inr (st',
             [Send 1 (Query \<lparr>qo_namespace = JStr ''test'', qo_set = JStr ''demo'',
                qo_statement = Stmt (Some [Filter_range (JStr ''age'') (JInt 18) (JInt 65)])\<rparr>),
              Stats_iteration Undefined,
              Send 1 (Run \<lparr>ro_namespace = JStr ''test'', ro_set = JStr ''demo'',
                ro_keyRange = Some (0, 1000), rops = ROPS (globals query_only_argv),
                wops = WOPS (globals query_only_argv), ro_binSpec = JUndefined\<rparr>)])) \<and>
   [Online 1, Message 1 (''stats'', Undefined)] =
     [] @ Online 1 # [Message 1 (''stats'', Undefined)] \<and>
   Online 1 \<notin> set [] \<and> Online 1 \<notin> set [Message 1 (''stats'', Undefined)] \<and>
   run query_only_argv (globals query_only_argv) [] = Inr (globals query_only_argv, []) \<and>
   exit_code (globals query_only_argv) = None \<and>
   \<not> rwOnline (globals query_only_argv) < rwWorkers (globals query_only_argv) \<and>
   queryOnline (globals query_only_argv) < queryWorkers (globals query_only_argv) \<and>
   filter is_query (sent_to 1
     [Send 1 (Query \<lparr>qo_namespace = JStr ''test'', qo_set = JStr ''demo'',
        qo_statement = Stmt (Some [Filter_range (JStr ''age'') (JInt 18) (JInt 65)])\<rparr>),
      Stats_iteration Undefined,
      Send 1 (Run \<lparr>ro_namespace = JStr ''test'', ro_set = JStr ''demo'',
        ro_keyRange = Some (0, 1000), rops = ROPS (globals query_only_argv),
        wops = WOPS (globals query_only_argv), ro_binSpec = JUndefined\<rparr>)]) =
     [Query \<lparr>qo_namespace = JStr ''test'', qo_set = JStr ''demo'',
        qo_statement = Stmt (Some [Filter_range (JStr ''age'') (JInt 18) (JInt 65)])\<rparr>] \<and>
   role_job query_only_argv (globals query_only_argv) 1 (Some (Query_role 0)) =
     [Send 1 (Query \<lparr>qo_namespace = JStr ''test'', qo_set = JStr ''demo'',
        qo_statement = Stmt (Some [Filter_range (JStr ''age'') (JInt 18) (JInt 65)])\<rparr>)] \<and>
   iterations query_only_argv = Some 2 \<and> iteration (globals query_only_argv) 1 < 2 \<and>
   sent_to 1 (snd (worker_results_iteration query_only_argv (globals query_only_argv) 1
                     Undefined)) =
     [Run \<lparr>ro_namespace = JStr ''test'', ro_set = JStr ''demo'',
        ro_keyRange = Some (0, 1000), rops = ROPS (globals query_only_argv),
        wops = WOPS (globals query_only_argv), ro_binSpec = JUndefined\<rparr>]"
proof -
  let ?st = "globals query_only_argv"
  let ?query = "Query \<lparr>qo_namespace = JStr ''test'', qo_set = JStr ''demo'',
               qo_statement = Stmt (Some [Filter_range (JStr ''age'') (JInt 18) (JInt 65)])\<rparr>"
  let ?run = "Run \<lparr>ro_namespace = JStr ''test'', ro_set = JStr ''demo'',
               ro_keyRange = Some (0, 1000), rops = ROPS ?st, wops = WOPS ?st,
               ro_binSpec = JUndefined\<rparr>"
  let ?effs = "[Send 1 ?query, Stats_iteration Undefined, Send 1 ?run]"
  let ?evs = "[Online 1, Message 1 (''stats'', Undefined)]"
  have fields: "namespace query_only_argv = JStr ''test''"
    "set_name query_only_argv = JStr ''demo''" "keyRange query_only_argv = Some (0, 1000)"
    "binSpec query_only_argv = JUndefined" "querySpec query_only_argv = Some [range_query]"
    "time query_only_argv = None" "iterations query_only_argv = Some 2"
    by (simp_all add: query_only_argv_def example_argv_def)
  have g: "exit_code ?st = None" "rwOnline ?st = 0" "rwWorkers ?st = 0" "queryOnline ?st = 0"
    "queryWorkers ?st = 1" "iteration ?st = (\<lambda>w. 0)"
    by (simp_all add: globals_def Let_def reset_interval_stats_def query_only_argv_def
          example_argv_def)
  have "\<exists>st'. run query_only_argv ?st ?evs = Inr (st', ?effs)"
    by (simp add: cluster_online_def Let_def g fields queryWorkerJob_def range_query_def
          worker_results_def worker_results_iteration_def rwWorkerJob_def)
  then obtain st' where ran: "run query_only_argv ?st ?evs = Inr (st', ?effs)"
    by blast
  have split: "?evs = [] @ Online 1 # [Message 1 (''stats'', Undefined)]"
    and fresh: "Online 1 \<notin> set []" "Online 1 \<notin> set [Message 1 (''stats'', Undefined)]"
    and before: "run query_only_argv ?st [] = Inr (?st, [])"
    by simp_all
  have full: "\<not> rwOnline ?st < rwWorkers ?st" and free: "queryOnline ?st < queryWorkers ?st"
    by (simp_all add: g)
  note inst = query_job_only_when_online [OF ran, of 1 Undefined]
  have "\<exists>options. filter is_query (sent_to 1 ?effs) = [Query options] \<and>
          role_job query_only_argv ?st 1
            (Some (if queryOnline ?st < queryWorkers ?st
                   then Query_role (nat (queryOnline ?st)) else Scan_role)) =
          [Send 1 (Query options)]"
    using inst split fresh before g(1) full free by blast
  then have once: "filter is_query (sent_to 1 ?effs) = [?query]"
    and role: "role_job query_only_argv ?st 1 (Some (Query_role 0)) = [Send 1 ?query]"
    by (auto simp: g)
  have below: "iteration ?st 1 < 2"
    by (simp add: g)
  have "sent_to 1 (snd (worker_results_iteration query_only_argv ?st 1 Undefined)) =
          (if iterations query_only_argv = None
              \<or> (\<exists>n. iterations query_only_argv = Some n \<and> iteration ?st 1 < n)
              \<or> time query_only_argv \<noteq> None
           then [Run \<lparr>ro_namespace = namespace query_only_argv,
                      ro_set = set_name query_only_argv,
                      ro_keyRange = keyRange query_only_argv, rops = ROPS ?st,
                      wops = WOPS ?st, ro_binSpec = binSpec query_only_argv\<rparr>]
           else [End])"
    using inst by blast
  then have answer:
    "sent_to 1 (snd (worker_results_iteration query_only_argv ?st 1 Undefined)) = [?run]"
    using below by (simp add: fields)
  show ?thesis
    using ran split fresh before g(1) full free once role fields(7) below answer by blast
qed

subsection \<open>The read/write worker count is not checked\<close>

text \<open>
  C2 as the specification states it: a negative \<open>processes - queryWorkers - scanWorkers\<close> ends
  the controller before any worker is spawned. With one process and two query
  specifications the difference is \<open>-1\<close>, and the controller forks worker 1 and goes on.
\<close>

theorem spawn_with_negative_count_counterexample:
  "outcome (controller negative_argv True []) =
     Inr ((zero_table, 0, [1], None),
          [Setup_alert_system, Set_interval 1000, Stats_start, Fork 1])
   \<and> processes negative_argv - int (query_slots negative_argv)
        - int (scan_slots negative_argv) = - 1"
proof -
  have kr: "keyRange negative_argv = Some (0, 1000)"
    by (simp add: negative_argv_def example_argv_def)
  have fields: "processes negative_argv = 1" "silent negative_argv" "time negative_argv = None"
    by (simp_all add: negative_argv_def example_argv_def)
  have g: "interval_stats (globals negative_argv) = zero_table"
    "counter (globals negative_argv) = 0" "exit_code (globals negative_argv) = None"
    by (simp_all add: globals_def Let_def reset_interval_stats_def zero_table_def OP_TYPES_def
          STATS_def numeral_eq_Suc)
  obtain it where "startup negative_argv True =
      Inr ((globals negative_argv)\<lparr>workers := [1..<1 + nat (processes negative_argv)],
             iteration := it, next_id := 1 + nat (processes negative_argv)\<rparr>,
           [Setup_alert_system] @
           (if \<not> silent negative_argv then [Log Log_config] else []) @
           [Set_interval 1000] @
           (case time negative_argv of None \<Rightarrow> [] | Some t \<Rightarrow> [Set_timeout (t * 1000)]) @
           [Stats_start] @ map Fork [1..<1 + nat (processes negative_argv)])"
    using startup_master [OF kr] by blast
  then have "outcome (controller negative_argv True []) =
     Inr ((zero_table, 0, [1], None),
          [Setup_alert_system, Set_interval 1000, Stats_start, Fork 1])"
    by (simp add: controller_def outcome_def fields g)
  moreover have "processes negative_argv - int (query_slots negative_argv)
        - int (scan_slots negative_argv) = - 1"
    by (simp add: query_slots_def scan_slots_def negative_argv_def example_argv_def)
  ultimately show ?thesis by simp
qed

text \<open>
  C2, amended: the controller stores \<open>processes - queryWorkers - scanWorkers\<close> in
  \<open>rwWorkers\<close> and does not check its sign. Run as the master with a key range configured,
  it forks one worker for each of \<open>argv.processes\<close> processes and does not end, whatever the
  sign of the difference.
\<close>

theorem negative_rw_workers_not_checked:
  assumes "keyRange a = Some kr"
  shows "\<exists>st effs. startup a True = Inr (st, effs) \<and> exit_code st = None \<and>
           rwWorkers st = processes a - int (query_slots a) - int (scan_slots a) \<and>
           workers st = [1..<1 + nat (processes a)] \<and>
           effs = [Setup_alert_system] @ (if \<not> silent a then [Log Log_config] else []) @
                  [Set_interval 1000] @
                  (case time a of None \<Rightarrow> [] | Some t \<Rightarrow> [Set_timeout (t * 1000)]) @
                  [Stats_start] @ map Fork [1..<1 + nat (processes a)]"
proof -
  obtain it where "startup a True =
           Inr ((globals a)\<lparr>workers := [1..<1 + nat (processes a)], iteration := it,
                            next_id := 1 + nat (processes a)\<rparr>,
                [Setup_alert_system] @ (if \<not> silent a then [Log Log_config] else []) @
                [Set_interval 1000] @
                (case time a of None \<Rightarrow> [] | Some t \<Rightarrow> [Set_timeout (t * 1000)]) @
                [Stats_start] @ map Fork [1..<1 + nat (processes a)])"
    using startup_master [OF assms] by blast
  moreover have "exit_code (globals a) = None"
    "rwWorkers (globals a) = processes a - int (query_slots a) - int (scan_slots a)"
    by (simp_all add: globals_def Let_def reset_interval_stats_def query_slots_def
          scan_slots_def split: option.splits)
  ultimately show ?thesis by simp
qed

theorem negative_rw_workers_not_checked_witness:
  "keyRange negative_argv = Some (0, 1000) \<and>
   (\<exists>st effs. startup negative_argv True = Inr (st, effs) \<and> exit_code st = None \<and>
      rwWorkers st = - 1 \<and> workers st = [1] \<and>
      effs = [Setup_alert_system, Set_interval 1000, Stats_start, Fork 1])"
proof -
  have kr: "keyRange negative_argv = Some (0, 1000)"
    by (simp add: negative_argv_def example_argv_def)
  have fields: "processes negative_argv = 1" "silent negative_argv" "time negative_argv = None"
    by (simp_all add: negative_argv_def example_argv_def)
  have slots: "query_slots negative_argv = 2" "scan_slots negative_argv = 0"
    by (simp_all add: query_slots_def scan_slots_def negative_argv_def example_argv_def)
  show ?thesis
    using kr negative_rw_workers_not_checked [OF kr]
    by (simp add: fields slots)
qed

subsection \<open>The operation mix\<close>







end
